theory Spec2Isabelle
  imports Main "HOL-Library.Sublist"
begin

section \<open>The Jira commit-message hook of hg-coveo\<close>

text \<open>
  The development embeds \<^verbatim>\<open>hooks/append_jira_commit_message.py\<close>. The hook runs inside
  Mercurial on Python 2: branch names, bookmark names, configuration values and commit
  messages are byte strings (\<^verbatim>\<open>str\<close>), so a string is a \<^typ>\<open>string\<close> of 8-bit characters,
  \<^verbatim>\<open>\d\<close> is the class of the ten ASCII digits, and \<^verbatim>\<open>str.strip()\<close> removes the six
  ASCII whitespace bytes.
\<close>

subsection \<open>Python built-ins used by the hook\<close>

datatype py_error = IndexError

definition newline :: char where
  "newline = CHR 0x0A"

text \<open>\<^verbatim>\<open>xs[i]\<close> on a list: a negative index counts from the end, an index out of range raises.\<close>

definition py_index :: "'a list \<Rightarrow> int \<Rightarrow> py_error + 'a" where
  "py_index xs i =
     (if 0 \<le> i \<and> i < int (length xs) then Inr (xs ! nat i)
      else if i < 0 \<and> - int (length xs) \<le> i then Inr (xs ! nat (int (length xs) + i))
      else Inl IndexError)"

text \<open>\<^verbatim>\<open>s.split(sep)\<close> for a one-character separator: the fields between the separators,
  empty fields included; \<open>cur\<close> is the field read so far.\<close>

fun split_from :: "char \<Rightarrow> string \<Rightarrow> string \<Rightarrow> string list" where
  "split_from sep cur [] = [cur]"
| "split_from sep cur (c # s) =
     (if c = sep then cur # split_from sep [] s else split_from sep (cur @ [c]) s)"

definition py_split :: "char \<Rightarrow> string \<Rightarrow> string list" where
  "py_split sep s = split_from sep [] s"

text \<open>\<^verbatim>\<open>sub in s\<close>: \<open>sub\<close> occurs in \<open>s\<close> as a contiguous substring.\<close>

fun py_in :: "string \<Rightarrow> string \<Rightarrow> bool" where
  "py_in sub [] = (sub = [])"
| "py_in sub (c # s) = (prefix sub (c # s) \<or> py_in sub s)"

text \<open>\<^verbatim>\<open>s.strip()\<close>: leading and trailing whitespace bytes removed.\<close>

definition is_space :: "char \<Rightarrow> bool" where
  "is_space c \<longleftrightarrow>
     c \<in> set [CHR 0x20, CHR 0x09, CHR 0x0A, CHR 0x0B, CHR 0x0C, CHR 0x0D]"

definition py_strip :: "string \<Rightarrow> string" where
  "py_strip s = rev (dropWhile is_space (rev (dropWhile is_space s)))"

subsection \<open>The fragment of \<^verbatim>\<open>re\<close> the pattern needs\<close>

text \<open>
  A backtracking matcher in the list-of-successes style: a cursor is the number of
  characters consumed and the rest of the subject; running a pattern at a cursor gives
  every cursor the pattern can stop at, in the order the backtracking engine tries them.
  Repetition and the optional group are greedy: the longer alternative comes first.
\<close>

datatype cset = Dot | Between char char | Digit | Lit char

fun in_cset :: "cset \<Rightarrow> char \<Rightarrow> bool" where
  "in_cset Dot c = (c \<noteq> newline)"
| "in_cset (Between lo hi) c =
     ((of_char lo :: nat) \<le> of_char c \<and> (of_char c :: nat) \<le> of_char hi)"
| "in_cset Digit c = ((48 :: nat) \<le> of_char c \<and> (of_char c :: nat) \<le> 57)"
| "in_cset (Lit a) c = (c = a)"

datatype regex =
    Bol
  | One cset
  | Star cset
  | Plus1 cset
  | Opt regex
  | Cat regex regex

type_synonym cursor = "nat \<times> string"

fun step :: "cset \<Rightarrow> cursor \<Rightarrow> cursor list" where
  "step cs (n, []) = []"
| "step cs (n, c # s) = (if in_cset cs c then [(Suc n, s)] else [])"

fun star_run :: "cset \<Rightarrow> cursor \<Rightarrow> cursor list" where
  "star_run cs (n, []) = [(n, [])]"
| "star_run cs (n, c # s) =
     (if in_cset cs c then star_run cs (Suc n, s) else []) @ [(n, c # s)]"

primrec run :: "regex \<Rightarrow> cursor \<Rightarrow> cursor list" where
  "run Bol k = (if fst k = 0 then [k] else [])"
| "run (One cs) k = step cs k"
| "run (Star cs) k = star_run cs k"
| "run (Plus1 cs) k = concat (map (star_run cs) (step cs k))"
| "run (Opt r) k = run r k @ [k]"
| "run (Cat r1 r2) k = concat (map (run r2) (run r1 k))"

text \<open>\<^verbatim>\<open>pattern.match(s)\<close> tries the pattern at position 0 only; the result is
  \<^verbatim>\<open>group(0)\<close> of the first success, or \<open>None\<close>.\<close>

definition re_match :: "regex \<Rightarrow> string \<Rightarrow> string option" where
  "re_match r s = (case run r (0, s) of [] \<Rightarrow> None | k # _ \<Rightarrow> Some (take (fst k) s))"

subsection \<open>extract_project_and_id\<close>

text \<open>\<^verbatim>\<open>re.compile(r"^(.*/)?[A-Z]+-\d+")\<close>\<close>

definition jira_regex :: regex where
  "jira_regex =
     Cat Bol
       (Cat (Opt (Cat (Star Dot) (One (Lit CHR ''/''))))
         (Cat (Plus1 (Between CHR ''A'' CHR ''Z''))
           (Cat (One (Lit CHR ''-'')) (Plus1 Digit))))"

definition extract_project_and_id :: "string \<Rightarrow> py_error + string" where
  "extract_project_and_id message =
     (case re_match jira_regex message of
        Some group0 \<Rightarrow> py_index (py_split CHR ''/'' group0) (- 1)
      | None \<Rightarrow> Inr [])"

subsection \<open>The hook\<close>

text \<open>What the hook does besides returning: lines printed to standard output
  (\<^verbatim>\<open>print\<close> adds the final newline) and calls of \<^verbatim>\<open>client.bookmarks()\<close>.\<close>

datatype event = Print string | Bookmarks_query

text \<open>The commit context of the host: \<^verbatim>\<open>ctx.branch()\<close>, \<^verbatim>\<open>ctx._text\<close>, and whatever
  else the host keeps in it (the extension part of the record).\<close>

record ctx =
  ctx_branch :: string
  ctx_text :: string

text \<open>The answers of the hglib client: \<^verbatim>\<open>client.config("jira")\<close> is a list of
  \<open>(section, key, value)\<close> or fails with \<^verbatim>\<open>CommandError\<close>; \<^verbatim>\<open>client.bookmarks()\<close> is a
  list of \<open>(name, rev, node)\<close> and the index of the active bookmark, \<open>-1\<close> for none.\<close>

datatype hglib_error = CommandError

type_synonym config_entry = "string \<times> string \<times> string"
type_synonym bookmark = "string \<times> int \<times> string"

record client =
  client_config :: "hglib_error + config_entry list"
  client_bookmarks :: "bookmark list \<times> int"

text \<open>\<^verbatim>\<open>get_config\<close>: the first entry of the section whose key is the one asked for.
  \<^verbatim>\<open>StopIteration\<close> (no such entry) and \<^verbatim>\<open>CommandError\<close> both become \<^verbatim>\<open>MissingConfig\<close>.
  The test \<^verbatim>\<open>if not cfg\<close> that follows never fires: an entry is a tuple of three, which is
  true in Python, so the model has no branch for it.\<close>

datatype missing_config = MissingConfig string

definition apostrophe :: char where
  "apostrophe = CHR 0x27"

definition get_config :: "'a client_scheme \<Rightarrow> string \<Rightarrow> missing_config + string" where
  "get_config cl key =
     (case client_config cl of
        Inl CommandError \<Rightarrow>
          Inl (MissingConfig (''Missing configuration key '' @ [apostrophe] @ key @ [apostrophe]))
      | Inr cfgs \<Rightarrow>
          (case find (\<lambda>cfg. fst (snd cfg) = key) cfgs of
             None \<Rightarrow>
               Inl (MissingConfig (''Missing configuration key '' @ [apostrophe] @ key @ [apostrophe]))
           | Some cfg \<Rightarrow> Inr (snd (snd cfg))))"

text \<open>The text \<^verbatim>\<open>print_help\<close> prints: the literal after \<^verbatim>\<open>textwrap.dedent\<close>.\<close>

definition help_text :: string where
  "help_text =
     [newline] @ ''Append a Jira link to commit messages.'' @ [newline] @
     [newline] @
     ''If the current branch (or bookmark) matches the Jira project,'' @ [newline] @
     ''and if the commit message doesn'' @ [apostrophe] @ ''t already contain it,'' @ [newline] @
     ''a link to the Jira is appended to commit messages.'' @ [newline] @
     [newline] @
     ''.hgrc configuration:'' @ [newline] @
     ''    [jira]'' @ [newline] @
     ''    jira.url = Jira base url, e.g. https://jira.atlassian.com/browse/'' @ [newline]"

definition format_message :: "string \<Rightarrow> string \<Rightarrow> string \<Rightarrow> string \<Rightarrow> event list \<times> string" where
  "format_message jira_url_base message jira whence =
     (let jira_link = jira_url_base @ ''/'' @ jira in
      if py_in jira_link message then ([], message)
      else
        ([Print ([newline] @ ''Appended JIRA '' @ [apostrophe] @ jira_link @ [apostrophe] @
                 '' to commit message (detected from '' @ whence @ '').'' @ [newline])],
         py_strip message @ [newline, newline] @ jira_link @ [newline]))"

text \<open>\<^verbatim>\<open>rewrite_ctx\<close>, the closure installed as \<^verbatim>\<open>repo.commitctx\<close>. It captures the base
  URL, the original \<^verbatim>\<open>commitctx\<close> and the client. The original commit operation is a
  parameter and its result is opaque: whatever it returns or raises is what the call in
  tail position hands back. An \<^verbatim>\<open>IndexError\<close> of \<^verbatim>\<open>[-1]\<close> or of
  \<^verbatim>\<open>bookmarks[active]\<close> leaves the function before the commit is called.\<close>

definition rewrite_ctx ::
  "string \<Rightarrow> ('a ctx_scheme \<Rightarrow> 'e \<Rightarrow> 'r) \<Rightarrow> 'b client_scheme \<Rightarrow> 'a ctx_scheme \<Rightarrow> 'e
     \<Rightarrow> event list \<times> (py_error + 'r)" where
  "rewrite_ctx jira_url_base commitctx cl ctx error =
     (let branch_name = ctx_branch ctx; commit_message = ctx_text ctx in
      case extract_project_and_id branch_name of
        Inl e \<Rightarrow> ([], Inl e)
      | Inr found \<Rightarrow>
          if found \<noteq> [] then
            (let (out, commit_message') =
                   format_message jira_url_base commit_message found ''branch name''
             in (out, Inr (commitctx (ctx\<lparr>ctx_text := commit_message'\<rparr>) error)))
          else
            (let (bookmarks, active) = client_bookmarks cl in
             if active \<noteq> - 1 then
               (case py_index bookmarks active of
                  Inl e \<Rightarrow> ([Bookmarks_query], Inl e)
                | Inr bm \<Rightarrow>
                    (let bookmark_name = fst bm in
                     case extract_project_and_id bookmark_name of
                       Inl e \<Rightarrow> ([Bookmarks_query], Inl e)
                     | Inr found' \<Rightarrow>
                         if found' \<noteq> [] then
                           (let (out, commit_message') =
                                  format_message jira_url_base commit_message found'
                                    ''bookmark name''
                            in (Bookmarks_query # out,
                                Inr (commitctx (ctx\<lparr>ctx_text := commit_message'\<rparr>) error)))
                         else
                           ([Bookmarks_query],
                            Inr (commitctx (ctx\<lparr>ctx_text := commit_message\<rparr>) error))))
             else
               ([Bookmarks_query],
                Inr (commitctx (ctx\<lparr>ctx_text := commit_message\<rparr>) error))))"

text \<open>\<^verbatim>\<open>append_jira_commit_message\<close>, the hook's entry point: it either ends the process
  (\<^verbatim>\<open>sys.exit(1)\<close>) or returns with \<^verbatim>\<open>repo.commitctx\<close> replaced by the closure.\<close>

datatype ('c, 'e, 'r) outcome =
    SystemExit int
  | Installed "'c \<Rightarrow> 'e \<Rightarrow> event list \<times> (py_error + 'r)"

definition append_jira_commit_message ::
  "('a ctx_scheme \<Rightarrow> 'e \<Rightarrow> 'r) \<Rightarrow> 'b client_scheme
     \<Rightarrow> event list \<times> ('a ctx_scheme, 'e, 'r) outcome" where
  "append_jira_commit_message commitctx cl =
     (case get_config cl ''jira.url'' of
        Inl (MissingConfig err) \<Rightarrow>
          ([Print (''ERROR: '' @ err), Print help_text], SystemExit 1)
      | Inr jira_url_base \<Rightarrow>
          ([], Installed (rewrite_ctx jira_url_base commitctx cl)))"

subsection \<open>Notions of the specification\<close>

text \<open>Uppercase ASCII letters and ASCII digits, by enumeration.\<close>

definition is_upper :: "char \<Rightarrow> bool" where
  "is_upper c \<longleftrightarrow> c \<in> set ''ABCDEFGHIJKLMNOPQRSTUVWXYZ''"

definition is_digit :: "char \<Rightarrow> bool" where
  "is_digit c \<longleftrightarrow> c \<in> set ''0123456789''"

text \<open>A ticket reference \<open>PROJECT-ID\<close>: one or more uppercase letters, a hyphen, one or
  more digits.\<close>

definition is_reference :: "string \<Rightarrow> bool" where
  "is_reference r \<longleftrightarrow>
     (\<exists>project ident. r = project @ ''-'' @ ident \<and>
        project \<noteq> [] \<and> list_all is_upper project \<and> ident \<noteq> [] \<and> list_all is_digit ident)"

text \<open>The reference that starts a string, read with maximal munch: the letters up to the
  hyphen and all the digits that follow it.\<close>

definition ticket_at :: "string \<Rightarrow> string option" where
  "ticket_at t =
     (let project = takeWhile is_upper t;
          ident = takeWhile is_digit (drop 1 (dropWhile is_upper t))
      in if project \<noteq> [] \<and> take 1 (dropWhile is_upper t) = ''-'' \<and> ident \<noteq> []
         then Some (project @ ''-'' @ ident) else None)"

text \<open>The pattern as the specification words it, \<^verbatim>\<open>^(prefix/)?[A-Z]+-[0-9]+\<close>: the string is
  an optional prefix that ends in a slash, then a ticket reference, then anything.\<close>

definition matches_pattern :: "string \<Rightarrow> bool" where
  "matches_pattern s \<longleftrightarrow>
     (\<exists>p r rest. s = p @ r @ rest \<and> (p = [] \<or> last p = CHR ''/'') \<and> is_reference r)"

text \<open>Position \<open>i\<close> of \<open>s\<close> is one the pattern can start a reference at: the start of the
  string, or right after a slash with no newline before that slash.\<close>

definition reachable :: "string \<Rightarrow> nat \<Rightarrow> bool" where
  "reachable s i \<longleftrightarrow>
     i = 0 \<or> (i \<le> length s \<and> s ! (i - 1) = CHR ''/'' \<and> newline \<notin> set (take (i - 1) s))"

definition ticket_start :: "string \<Rightarrow> nat \<Rightarrow> bool" where
  "ticket_start s i \<longleftrightarrow> reachable s i \<and> ticket_at (drop i s) \<noteq> None"

text \<open>\<open>sub\<close> occurs verbatim in \<open>s\<close>.\<close>

definition occurs_in :: "string \<Rightarrow> string \<Rightarrow> bool" where
  "occurs_in sub s \<longleftrightarrow> (\<exists>p q. s = p @ sub @ q)"

text \<open>\<open>t\<close> is \<open>s\<close> without its leading and trailing whitespace.\<close>

definition trimmed_of :: "string \<Rightarrow> string \<Rightarrow> bool" where
  "trimmed_of s t \<longleftrightarrow>
     (\<exists>lead trail. s = lead @ t @ trail \<and> list_all is_space lead \<and> list_all is_space trail \<and>
        (t = [] \<or> (\<not> is_space (hd t) \<and> \<not> is_space (last t))))"

text \<open>The host keeps its promise about \<^verbatim>\<open>client.bookmarks()\<close>: the index of the active
  bookmark is \<open>-1\<close> or an index of the list.\<close>

definition active_valid :: "'b client_scheme \<Rightarrow> bool" where
  "active_valid cl \<longleftrightarrow>
     (let (bookmarks, active) = client_bookmarks cl
      in active = - 1 \<or> (- int (length bookmarks) \<le> active \<and> active < int (length bookmarks)))"

text \<open>The parts of the pattern: the prefix group \<^verbatim>\<open>.*/\<close> and the ticket
  \<^verbatim>\<open>[A-Z]+-\d+\<close>.\<close>

definition prefix_rx :: regex where
  "prefix_rx = Cat (Star Dot) (One (Lit CHR ''/''))"

definition dash_digits :: regex where
  "dash_digits = Cat (One (Lit CHR ''-'')) (Plus1 Digit)"

definition ticket_rx :: regex where
  "ticket_rx = Cat (Plus1 (Between CHR ''A'' CHR ''Z'')) dash_digits"

text \<open>Position \<open>i\<close> is right after a slash that the prefix group can reach: no
  newline comes before that slash.\<close>

definition after_slash :: "string \<Rightarrow> nat \<Rightarrow> bool" where
  "after_slash s i \<longleftrightarrow>
     0 < i \<and> i \<le> length s \<and> s ! (i - 1) = CHR ''/'' \<and> newline \<notin> set (take (i - 1) s)"

text \<open>\<open>s\<close> with its trailing whitespace removed and nothing else, as the specification
  words the trimming.\<close>

definition trailing_trimmed :: "string \<Rightarrow> string" where
  "trailing_trimmed s = rev (dropWhile is_space (rev s))"

text \<open>\<open>r\<close> is the reference the interceptor finds for a commit: the one in the branch
  name, or, when the branch name has none and a bookmark is active, the one in that
  bookmark's name.\<close>

definition found_reference :: "'b client_scheme \<Rightarrow> 'a ctx_scheme \<Rightarrow> string \<Rightarrow> bool" where
  "found_reference cl ctx r \<longleftrightarrow>
     r \<noteq> [] \<and>
     (extract_project_and_id (ctx_branch ctx) = Inr r \<or>
      (extract_project_and_id (ctx_branch ctx) = Inr [] \<and>
       snd (client_bookmarks cl) \<noteq> - 1 \<and>
       (case py_index (fst (client_bookmarks cl)) (snd (client_bookmarks cl)) of
          Inl e \<Rightarrow> False
        | Inr bm \<Rightarrow> extract_project_and_id (fst bm) = Inr r)))"

section \<open>Properties\<close>

subsection \<open>Character classes\<close>

lemma in_cset_digit: "in_cset Digit c = is_digit c"
proof -
  have "is_digit c \<longleftrightarrow> (of_char c :: nat) \<in> set [48..<58]"
    unfolding is_digit_def by (simp add: of_char_eq_iff [of c, where ?'a = nat, symmetric] upt_rec)
  also have "\<dots> \<longleftrightarrow> in_cset Digit c"
    by (simp del: upt_Suc) arith
  finally show ?thesis by simp
qed

lemma in_cset_upper: "in_cset (Between CHR ''A'' CHR ''Z'') c = is_upper c"
proof -
  have "is_upper c \<longleftrightarrow> (of_char c :: nat) \<in> set [65..<91]"
    unfolding is_upper_def by (simp add: of_char_eq_iff [of c, where ?'a = nat, symmetric] upt_rec)
  also have "\<dots> \<longleftrightarrow> in_cset (Between CHR ''A'' CHR ''Z'') c"
    by (simp del: upt_Suc) arith
  finally show ?thesis by simp
qed

subsection \<open>Splitting and indexing\<close>

lemma split_from_no_sep: "sep \<notin> set w \<Longrightarrow> split_from sep cur w = [cur @ w]"
  by (induction w arbitrary: cur) auto

lemma split_from_not_Nil: "split_from sep cur s \<noteq> []"
  by (induction s arbitrary: cur) auto

lemma split_from_last:
  "sep \<notin> set w \<Longrightarrow> last (split_from sep cur (p @ sep # w)) = w"
  by (induction p arbitrary: cur) (auto simp: split_from_no_sep split_from_not_Nil)

lemma py_index_last: "xs \<noteq> [] \<Longrightarrow> py_index xs (- 1) = Inr (last xs)"
  by (cases xs rule: rev_cases) (auto simp: py_index_def nth_append)

lemma last_field_plain: "CHR ''/'' \<notin> set w \<Longrightarrow> py_index (py_split CHR ''/'' w) (- 1) = Inr w"
  by (simp add: py_split_def split_from_no_sep py_index_def)

lemma last_field_prefixed:
  "CHR ''/'' \<notin> set w \<Longrightarrow> py_index (py_split CHR ''/'' (p @ CHR ''/'' # w)) (- 1) = Inr w"
  by (simp add: py_split_def py_index_last split_from_not_Nil split_from_last)

subsection \<open>Greedy repetition\<close>

lemma star_run_hd:
  "\<exists>more. star_run cs (n, s) =
     (n + length (takeWhile (in_cset cs) s), dropWhile (in_cset cs) s) # more"
proof (induction s arbitrary: n)
  case Nil
  show ?case by simp
next
  case (Cons c s)
  show ?case
  proof (cases "in_cset cs c")
    case True
    from Cons [of "Suc n"] obtain more where
      "star_run cs (Suc n, s) =
         (Suc n + length (takeWhile (in_cset cs) s), dropWhile (in_cset cs) s) # more"
      by blast
    with True show ?thesis by simp
  next
    case False
    then show ?thesis by simp
  qed
qed

lemma run_Plus1_Nil: "takeWhile (in_cset cs) s = [] \<Longrightarrow> run (Plus1 cs) (n, s) = []"
  by (cases s) (auto split: if_splits)

lemma run_Plus1_hd:
  assumes "takeWhile (in_cset cs) s \<noteq> []"
  shows "\<exists>more. run (Plus1 cs) (n, s) =
     (n + length (takeWhile (in_cset cs) s), dropWhile (in_cset cs) s) # more"
proof (cases s)
  case Nil
  with assms show ?thesis by simp
next
  case (Cons c s')
  with assms have c: "in_cset cs c" by (auto split: if_splits)
  from star_run_hd [of cs "Suc n" s'] c Cons show ?thesis by auto
qed

subsection \<open>The ticket part of the pattern\<close>

lemma upper_not_dash: "is_upper c \<Longrightarrow> c \<noteq> CHR ''-''"
  by (auto simp: is_upper_def)

lemma upper_not_slash: "is_upper c \<Longrightarrow> c \<noteq> CHR ''/''"
  by (auto simp: is_upper_def)

lemma digit_not_slash: "is_digit c \<Longrightarrow> c \<noteq> CHR ''/''"
  by (auto simp: is_digit_def)

lemma run_dash_digits_Cons:
  "run dash_digits (n, c # t) = (if c = CHR ''-'' then run (Plus1 Digit) (Suc n, t) else [])"
  by (simp add: dash_digits_def)

lemma run_dash_digits_Nil: "run dash_digits (n, []) = []"
  by (simp add: dash_digits_def)

lemma run_letters_then:
  "concat (map (run dash_digits) (star_run (Between CHR ''A'' CHR ''Z'') (n, t))) =
     run dash_digits (n + length (takeWhile is_upper t), dropWhile is_upper t)"
proof (induction t arbitrary: n)
  case Nil
  show ?case by simp
next
  case (Cons c t)
  show ?case
  proof (cases "is_upper c")
    case True
    then have "run dash_digits (n, c # t) = []"
      by (simp add: run_dash_digits_Cons upper_not_dash)
    with True Cons [of "Suc n"] show ?thesis
      by (simp add: in_cset_upper del: in_cset.simps)
  next
    case False
    then show ?thesis by (simp add: in_cset_upper del: in_cset.simps)
  qed
qed

lemma run_ticket_rx:
  "run ticket_rx (n, t) =
     (if takeWhile is_upper t = [] then []
      else run dash_digits (n + length (takeWhile is_upper t), dropWhile is_upper t))"
proof (cases t)
  case Nil
  then show ?thesis by (simp add: ticket_rx_def)
next
  case (Cons c t')
  show ?thesis
  proof (cases "is_upper c")
    case True
    with Cons run_letters_then [of "Suc n" t'] show ?thesis
      by (simp add: ticket_rx_def in_cset_upper del: in_cset.simps)
  next
    case False
    with Cons show ?thesis
      by (simp add: ticket_rx_def in_cset_upper del: in_cset.simps)
  qed
qed

lemma ticket_at_SomeD:
  assumes "ticket_at t = Some tk"
  obtains L D rest where
    "t = L @ CHR ''-'' # D @ rest" "tk = L @ CHR ''-'' # D" "L \<noteq> []" "D \<noteq> []"
    "takeWhile is_upper t = L" "dropWhile is_upper t = CHR ''-'' # D @ rest"
    "takeWhile is_digit (D @ rest) = D" "dropWhile is_digit (D @ rest) = rest"
proof -
  define L where "L = takeWhile is_upper t"
  define r where "r = dropWhile is_upper t"
  define D where "D = takeWhile is_digit (drop 1 r)"
  define rest where "rest = dropWhile is_digit (drop 1 r)"
  from assms have L: "L \<noteq> []" and dash: "take 1 r = ''-''" and D: "D \<noteq> []"
    and tk: "tk = L @ ''-'' @ D"
    by (auto simp: ticket_at_def Let_def L_def r_def D_def split: if_splits)
  have "drop 1 r = D @ rest"
    by (simp add: D_def rest_def)
  with dash have r: "r = CHR ''-'' # D @ rest"
    by (cases r) auto
  have "t = L @ r"
    by (simp add: L_def r_def)
  with r have t: "t = L @ CHR ''-'' # D @ rest" by simp
  have "takeWhile is_digit (D @ rest) = D" "dropWhile is_digit (D @ rest) = rest"
    using \<open>drop 1 r = D @ rest\<close> by (simp_all add: D_def rest_def)
  with t tk L D r show ?thesis
    by (intro that [of L D rest]) (simp_all add: L_def r_def)
qed

lemma run_ticket_None:
  assumes "ticket_at t = None"
  shows "run ticket_rx (n, t) = []"
proof (cases "dropWhile is_upper t")
  case Nil
  show ?thesis unfolding run_ticket_rx Nil by (simp add: run_dash_digits_Nil)
next
  case (Cons c r)
  with assms have "takeWhile is_upper t = [] \<or> c \<noteq> CHR ''-'' \<or> takeWhile is_digit r = []"
    by (auto simp: ticket_at_def Let_def split: if_splits)
  then show ?thesis
    unfolding run_ticket_rx Cons
    using run_Plus1_Nil [of Digit r]
    by (auto simp: run_dash_digits_Cons in_cset_digit [abs_def] simp del: run.simps)
qed

lemma run_ticket_Some:
  assumes "ticket_at t = Some tk"
  shows "\<exists>more. run ticket_rx (n, t) = (n + length tk, drop (length tk) t) # more"
proof -
  from assms obtain L D rest where
    t: "t = L @ CHR ''-'' # D @ rest" and tk: "tk = L @ CHR ''-'' # D"
    and L: "L \<noteq> []" and D: "D \<noteq> []"
    and tw: "takeWhile is_upper t = L" and dw: "dropWhile is_upper t = CHR ''-'' # D @ rest"
    and td: "takeWhile is_digit (D @ rest) = D" and dd: "dropWhile is_digit (D @ rest) = rest"
    by (rule ticket_at_SomeD)
  have len: "n + length tk = Suc (n + length L) + length D"
    by (simp add: tk)
  have dr: "drop (length tk) t = rest"
    by (simp add: t tk)
  from D td have "takeWhile (in_cset Digit) (D @ rest) \<noteq> []"
    by (simp add: in_cset_digit [abs_def])
  from run_Plus1_hd [OF this, of "Suc (n + length L)"] obtain more where
    "run (Plus1 Digit) (Suc (n + length L), D @ rest) = (Suc (n + length L) + length D, rest) # more"
    by (auto simp: in_cset_digit [abs_def] td dd simp del: run.simps)
  then show ?thesis
    unfolding run_ticket_rx tw dw len dr using L
    by (simp add: run_dash_digits_Cons del: run.simps)
qed

subsection \<open>The prefix group and the first match\<close>

lemma reachable_iff: "reachable s i \<longleftrightarrow> i = 0 \<or> after_slash s i"
  by (cases i) (simp_all add: reachable_def after_slash_def)

lemma after_slash_Nil: "\<not> after_slash [] i"
  by (auto simp: after_slash_def)

lemma after_slash_one: "after_slash (c # s) (Suc 0) \<longleftrightarrow> c = CHR ''/''"
  by (simp add: after_slash_def)

lemma after_slash_Suc:
  "0 < i \<Longrightarrow> after_slash (c # s) (Suc i) \<longleftrightarrow> c \<noteq> newline \<and> after_slash s i"
  by (cases i) (auto simp: after_slash_def)

lemma run_prefix_Nil: "run prefix_rx (n, []) = []"
  by (simp add: prefix_rx_def)

lemma run_prefix_Cons:
  "run prefix_rx (n, c # s) =
     (if c \<noteq> newline then run prefix_rx (Suc n, s) else []) @
     (if c = CHR ''/'' then [(Suc n, s)] else [])"
  by (simp add: prefix_rx_def)

lemma after_prefix_none:
  "(\<And>i. after_slash s i \<Longrightarrow> ticket_at (drop i s) = None) \<Longrightarrow>
     concat (map (run ticket_rx) (run prefix_rx (n, s))) = []"
proof (induction s arbitrary: n)
  case Nil
  show ?case by (simp add: run_prefix_Nil)
next
  case (Cons c s)
  have tail: "concat (map (run ticket_rx) (run prefix_rx (Suc n, s))) = []" if "c \<noteq> newline"
  proof (rule Cons.IH)
    fix i assume "after_slash s i"
    then have "0 < i" by (simp add: after_slash_def)
    with that \<open>after_slash s i\<close> have "after_slash (c # s) (Suc i)"
      by (simp add: after_slash_Suc)
    from Cons.prems [OF this] show "ticket_at (drop i s) = None" by simp
  qed
  have here: "run ticket_rx (Suc n, s) = []" if "c = CHR ''/''"
  proof -
    from that have "after_slash (c # s) (Suc 0)" by (simp add: after_slash_one)
    from Cons.prems [OF this] show ?thesis by (simp add: run_ticket_None)
  qed
  show ?case
    by (simp add: run_prefix_Cons tail here del: run.simps concat_eq_Nil_conv)
qed

lemma after_prefix_some:
  "after_slash s i \<Longrightarrow> ticket_at (drop i s) = Some tk \<Longrightarrow>
   (\<And>j. i < j \<Longrightarrow> after_slash s j \<Longrightarrow> ticket_at (drop j s) = None) \<Longrightarrow>
     \<exists>more. concat (map (run ticket_rx) (run prefix_rx (n, s))) =
       (n + i + length tk, drop (i + length tk) s) # more"
proof (induction s arbitrary: n i)
  case Nil
  then show ?case by (simp add: after_slash_Nil)
next
  case (Cons c s)
  from Cons.prems(1) obtain i' where i: "i = Suc i'"
    by (cases i) (auto simp: after_slash_def)
  show ?case
  proof (cases "i' = 0")
    case True
    with i Cons.prems(1) have c: "c = CHR ''/''" by (simp add: after_slash_one)
    then have nl: "c \<noteq> newline" by (simp add: newline_def)
    from True i Cons.prems(2) have "ticket_at s = Some tk" by simp
    from run_ticket_Some [OF this, of "Suc n"] obtain more where
      here: "run ticket_rx (Suc n, s) = (Suc n + length tk, drop (length tk) s) # more"
      by blast
    have tail: "concat (map (run ticket_rx) (run prefix_rx (Suc n, s))) = []"
    proof (rule after_prefix_none)
      fix j assume j: "after_slash s j"
      then have "0 < j" by (simp add: after_slash_def)
      with j nl have "after_slash (c # s) (Suc j)" by (simp add: after_slash_Suc)
      moreover from \<open>0 < j\<close> True i have "i < Suc j" by simp
      ultimately have "ticket_at (drop (Suc j) (c # s)) = None" by (rule Cons.prems(3) [rotated])
      then show "ticket_at (drop j s) = None" by simp
    qed
    from c nl True i show ?thesis
      by (simp add: run_prefix_Cons tail here del: run.simps concat_eq_Nil_conv)
  next
    case False
    with i Cons.prems(1) have nl: "c \<noteq> newline" and as: "after_slash s i'"
      by (simp_all add: after_slash_Suc)
    from i Cons.prems(2) have tk: "ticket_at (drop i' s) = Some tk" by simp
    have "\<exists>more. concat (map (run ticket_rx) (run prefix_rx (Suc n, s))) =
       (Suc n + i' + length tk, drop (i' + length tk) s) # more"
    proof (rule Cons.IH [OF as tk])
      fix j assume "i' < j" and j: "after_slash s j"
      then have "0 < j" by simp
      with j nl have "after_slash (c # s) (Suc j)" by (simp add: after_slash_Suc)
      moreover from \<open>i' < j\<close> i have "i < Suc j" by simp
      ultimately have "ticket_at (drop (Suc j) (c # s)) = None" by (rule Cons.prems(3) [rotated])
      then show "ticket_at (drop j s) = None" by simp
    qed
    with nl i show ?thesis
      by (auto simp: run_prefix_Cons simp del: run.simps)
  qed
qed

lemma run_jira_regex:
  "run jira_regex (0, s) =
     concat (map (run ticket_rx) (run prefix_rx (0, s))) @ run ticket_rx (0, s)"
  by (simp add: jira_regex_def ticket_rx_def prefix_rx_def dash_digits_def)

lemma ticket_start_iff:
  "ticket_start s i \<longleftrightarrow> (i = 0 \<or> after_slash s i) \<and> ticket_at (drop i s) \<noteq> None"
  by (simp add: ticket_start_def reachable_iff)

lemma re_match_none:
  assumes "\<And>i. \<not> ticket_start s i"
  shows "re_match jira_regex s = None"
proof -
  have pre: "concat (map (run ticket_rx) (run prefix_rx (0, s))) = []"
    using assms by (intro after_prefix_none) (auto simp: ticket_start_iff)
  have here: "run ticket_rx (0, s) = []"
    using assms [of 0] by (intro run_ticket_None) (simp add: ticket_start_iff)
  show ?thesis
    by (simp add: re_match_def run_jira_regex pre here del: run.simps concat_eq_Nil_conv)
qed

lemma re_match_some:
  assumes "ticket_start s i" and "\<And>j. i < j \<Longrightarrow> \<not> ticket_start s j"
    and "ticket_at (drop i s) = Some tk"
  shows "re_match jira_regex s = Some (take (i + length tk) s)"
proof (cases "i = 0")
  case True
  have pre: "concat (map (run ticket_rx) (run prefix_rx (0, s))) = []"
  proof (rule after_prefix_none)
    fix j assume j: "after_slash s j"
    then have "i < j" using True by (simp add: after_slash_def)
    from assms(2) [OF this] j show "ticket_at (drop j s) = None"
      by (simp add: ticket_start_iff)
  qed
  from run_ticket_Some [of s tk 0] assms(3) True obtain more where
    here: "run ticket_rx (0, s) = (length tk, drop (length tk) s) # more"
    by auto
  show ?thesis using True
    by (simp add: re_match_def run_jira_regex pre here del: run.simps concat_eq_Nil_conv)
next
  case False
  with assms(1) have as: "after_slash s i" by (simp add: ticket_start_iff)
  have "\<exists>more. concat (map (run ticket_rx) (run prefix_rx (0, s))) =
       (0 + i + length tk, drop (i + length tk) s) # more"
  proof (rule after_prefix_some [OF as assms(3)])
    fix j assume "i < j" "after_slash s j"
    with assms(2) [of j] show "ticket_at (drop j s) = None"
      by (simp add: ticket_start_iff)
  qed
  then show ?thesis
    by (auto simp: re_match_def run_jira_regex simp del: run.simps)
qed

subsection \<open>What extraction returns\<close>

lemma ticket_at_iff:
  "ticket_at t = Some r \<longleftrightarrow>
     (\<exists>rest. t = r @ rest \<and> is_reference r \<and> (rest = [] \<or> \<not> is_digit (hd rest)))"
proof
  assume "ticket_at t = Some r"
  then obtain L D rest where
    t: "t = L @ CHR ''-'' # D @ rest" and r: "r = L @ CHR ''-'' # D"
    and L: "L \<noteq> []" and D: "D \<noteq> []"
    and tw: "takeWhile is_upper t = L"
    and td: "takeWhile is_digit (D @ rest) = D" and dd: "dropWhile is_digit (D @ rest) = rest"
    by (rule ticket_at_SomeD)
  have "list_all is_upper (takeWhile is_upper t)"
    by (auto simp: list_all_iff dest: set_takeWhileD)
  then have "list_all is_upper L"
    by (simp only: tw)
  moreover have "list_all is_digit (takeWhile is_digit (D @ rest))"
    by (auto simp: list_all_iff dest: set_takeWhileD)
  then have "list_all is_digit D"
    by (simp only: td)
  moreover have "dropWhile is_digit (D @ rest) = [] \<or>
      \<not> is_digit (hd (dropWhile is_digit (D @ rest)))"
    using hd_dropWhile [of is_digit "D @ rest"] by blast
  then have "rest = [] \<or> \<not> is_digit (hd rest)"
    by (simp only: dd)
  ultimately show "\<exists>rest. t = r @ rest \<and> is_reference r \<and> (rest = [] \<or> \<not> is_digit (hd rest))"
    using t r L D by (auto simp: is_reference_def)
next
  assume "\<exists>rest. t = r @ rest \<and> is_reference r \<and> (rest = [] \<or> \<not> is_digit (hd rest))"
  then obtain rest L D where t: "t = (L @ ''-'' @ D) @ rest" and r: "r = L @ ''-'' @ D"
    and L: "L \<noteq> []" "list_all is_upper L" and D: "D \<noteq> []" "list_all is_digit D"
    and rest: "rest = [] \<or> \<not> is_digit (hd rest)"
    by (auto simp: is_reference_def)
  have nd: "\<not> is_upper CHR ''-''" by (simp add: is_upper_def)
  from L have tw: "takeWhile is_upper t = L" and dw: "dropWhile is_upper t = CHR ''-'' # D @ rest"
    using nd by (simp_all add: t list_all_iff)
  from rest have "takeWhile is_digit rest = []"
    by (cases rest) auto
  with D have "takeWhile is_digit (D @ rest) = D"
    by (simp add: list_all_iff)
  with tw dw L D show "ticket_at t = Some r"
    by (simp add: ticket_at_def r)
qed

lemma ticket_at_exists:
  assumes "t = r @ rest" "is_reference r"
  shows "ticket_at t \<noteq> None"
proof -
  from assms obtain L D where t: "t = (L @ ''-'' @ D) @ rest"
    and L: "L \<noteq> []" "list_all is_upper L" and D: "D \<noteq> []" "list_all is_digit D"
    by (auto simp: is_reference_def)
  have nd: "\<not> is_upper CHR ''-''" by (simp add: is_upper_def)
  from L have tw: "takeWhile is_upper t = L" and dw: "dropWhile is_upper t = CHR ''-'' # D @ rest"
    using nd by (simp_all add: t list_all_iff)
  from D have "takeWhile is_digit (D @ rest) = D @ takeWhile is_digit rest"
    by (simp add: list_all_iff)
  with tw dw L D show ?thesis
    by (simp add: ticket_at_def)
qed

lemma reference_no_slash:
  assumes "is_reference r"
  shows "CHR ''/'' \<notin> set r"
proof -
  from assms obtain L D where r: "r = L @ ''-'' @ D"
    and L: "list_all is_upper L" and D: "list_all is_digit D"
    unfolding is_reference_def by blast
  have "CHR ''/'' \<notin> set L"
    using L upper_not_slash unfolding list_all_iff by blast
  moreover have "CHR ''/'' \<notin> set D"
    using D digit_not_slash unfolding list_all_iff by blast
  ultimately show ?thesis
    unfolding r by simp
qed

lemma reference_not_Nil: "is_reference r \<Longrightarrow> r \<noteq> []"
  by (auto simp: is_reference_def)

lemma ticket_at_Nil: "ticket_at [] = None"
  by (simp add: ticket_at_def)

lemma ticket_start_less: "ticket_start s i \<Longrightarrow> i < length s"
  by (rule ccontr) (simp add: ticket_start_def ticket_at_Nil)

lemma ticket_start_greatest:
  assumes "ticket_start s i"
  shows "\<exists>m. ticket_start s m \<and> (\<forall>j>m. \<not> ticket_start s j)"
proof -
  have "\<exists>m. ticket_start s m \<and> (\<forall>j. ticket_start s j \<longrightarrow> j \<le> m)"
    using assms by (rule ex_has_greatest_nat [where b = "length s"])
      (auto dest: ticket_start_less)
  then show ?thesis by (meson not_less)
qed

lemma extract_none:
  assumes "\<And>i. \<not> ticket_start s i"
  shows "extract_project_and_id s = Inr []"
  using re_match_none [OF assms] by (simp add: extract_project_and_id_def)

lemma extract_some:
  assumes "ticket_start s i" and "\<And>j. i < j \<Longrightarrow> \<not> ticket_start s j"
    and "ticket_at (drop i s) = Some r"
  shows "extract_project_and_id s = Inr r"
proof -
  from assms(3) obtain rest where d: "drop i s = r @ rest" and ref: "is_reference r"
    by (auto simp: ticket_at_iff)
  from ref have ns: "CHR ''/'' \<notin> set r" by (rule reference_no_slash)
  from assms(1) have i: "i < length s" by (rule ticket_start_less)
  have "take (i + length r) s = take i s @ take (length r) (drop i s)"
    by (simp add: take_add)
  with d have g: "take (i + length r) s = take i s @ r" by simp
  have m: "re_match jira_regex s = Some (take i s @ r)"
    using re_match_some [OF assms] g by simp
  show ?thesis
  proof (cases "i = 0")
    case True
    with m ns show ?thesis
      by (simp add: extract_project_and_id_def last_field_plain)
  next
    case False
    with assms(1) have "after_slash s i" by (simp add: ticket_start_iff)
    then have "s ! (i - 1) = CHR ''/''" and "0 < i" by (simp_all add: after_slash_def)
    moreover from \<open>0 < i\<close> obtain k where k: "i = Suc k"
      by (cases i) auto
    moreover from k i have "take (Suc k) s = take k s @ [s ! k]"
      by (intro take_Suc_conv_app_nth) simp
    ultimately have "take i s = take (i - 1) s @ [CHR ''/'']"
      by simp
    with m ns show ?thesis
      by (simp add: extract_project_and_id_def last_field_prefixed)
  qed
qed

lemma extract_cases:
  obtains (none) "\<And>i. \<not> ticket_start s i" "extract_project_and_id s = Inr []"
  | (some) m r where "ticket_start s m" "\<And>j. m < j \<Longrightarrow> \<not> ticket_start s j"
      "ticket_at (drop m s) = Some r" "extract_project_and_id s = Inr r"
proof (cases "\<exists>i. ticket_start s i")
  case False
  then have "\<And>i. \<not> ticket_start s i" by blast
  then show ?thesis using extract_none none by blast
next
  case True
  then obtain m where m: "ticket_start s m" and g: "\<And>j. m < j \<Longrightarrow> \<not> ticket_start s j"
    using ticket_start_greatest by blast
  from m obtain r where r: "ticket_at (drop m s) = Some r"
    by (auto simp: ticket_start_def)
  from extract_some [OF m g r] m g r show ?thesis by (rule some [rotated 3])
qed

lemma extract_total: "\<exists>r. extract_project_and_id s = Inr r"
  by (rule extract_cases [of s]) blast+

lemma ticket_start_exec:
  "ticket_start s i \<longleftrightarrow>
     i < length s \<and> (i = 0 \<or> (s ! (i - 1) = CHR ''/'' \<and> newline \<notin> set (take (i - 1) s))) \<and>
     ticket_at (drop i s) \<noteq> None"
  using ticket_start_less [of s i] by (auto simp: ticket_start_def reachable_def)

lemma is_reference_iff: "is_reference r \<longleftrightarrow> ticket_at r = Some r"
  by (auto simp: ticket_at_iff)

section \<open>The claims\<close>

text \<open>
  Claim C9. Extraction is total: for every input string it returns a string and never
  raises. Whenever the result is not empty, it contains no slash, it has the form
  \<open>PROJECT-ID\<close> (one or more uppercase letters, a hyphen, one or more digits), and it
  occurs in the input as it stands, so its casing is the input's.
\<close>


theorem extract_total_and_well_formed:
  "\<exists>r. extract_project_and_id s = Inr r \<and>
     (r \<noteq> [] \<longrightarrow> CHR ''/'' \<notin> set r \<and> is_reference r \<and> occurs_in r s)"
proof (rule extract_cases [of s])
  assume "extract_project_and_id s = Inr []"
  then show ?thesis by simp
next
  fix m r
  assume r: "ticket_at (drop m s) = Some r" and e: "extract_project_and_id s = Inr r"
  from r obtain rest where d: "drop m s = r @ rest" and ref: "is_reference r"
    by (auto simp: ticket_at_iff)
  have "s = take m s @ drop m s" by simp
  with d have "s = take m s @ r @ rest" by simp
  then have "occurs_in r s" unfolding occurs_in_def by blast
  with e ref reference_no_slash [OF ref] show ?thesis by simp
qed

theorem extract_total_and_well_formed_witness:
  "extract_project_and_id ''fix/ABC-123-branch-name'' = Inr ''ABC-123'' \<and>
   ''ABC-123'' \<noteq> [] \<and> CHR ''/'' \<notin> set ''ABC-123'' \<and> is_reference ''ABC-123'' \<and>
   occurs_in ''ABC-123'' ''fix/ABC-123-branch-name''"
proof -
  have e: "extract_project_and_id ''fix/ABC-123-branch-name'' = Inr ''ABC-123''"
    by (simp add: extract_project_and_id_def re_match_def jira_regex_def py_split_def
        py_index_def newline_def)
  from extract_total_and_well_formed [of "''fix/ABC-123-branch-name''"] e
  show ?thesis by simp
qed

subsection \<open>The pattern of the specification, computed\<close>

lemma last_take_after_slash:
  assumes "after_slash s i"
  shows "take i s \<noteq> [] \<and> last (take i s) = CHR ''/''"
proof -
  from assms obtain k where k: "i = Suc k" and len: "k < length s" and sl: "s ! k = CHR ''/''"
    by (cases i) (auto simp: after_slash_def)
  from len have "take (Suc k) s = take k s @ [s ! k]"
    by (rule take_Suc_conv_app_nth)
  with k sl show ?thesis by simp
qed

lemma matches_pattern_iff:
  "matches_pattern s \<longleftrightarrow>
     (\<exists>i<length s. (i = 0 \<or> s ! (i - 1) = CHR ''/'') \<and> ticket_at (drop i s) \<noteq> None)"
proof
  assume "matches_pattern s"
  then obtain p r rest where s: "s = p @ r @ rest" and p: "p = [] \<or> last p = CHR ''/''"
    and ref: "is_reference r"
    unfolding matches_pattern_def by blast
  from ref have "r \<noteq> []" by (rule reference_not_Nil)
  with s have len: "length p < length s" by simp
  from s have "drop (length p) s = r @ rest" by simp
  then have t: "ticket_at (drop (length p) s) \<noteq> None"
    using ref by (rule ticket_at_exists)
  have "length p = 0 \<or> s ! (length p - 1) = CHR ''/''"
  proof (cases "p = []")
    case True
    then show ?thesis by simp
  next
    case False
    with p have "last p = CHR ''/''" by simp
    moreover from False have "s ! (length p - 1) = p ! (length p - 1)"
      unfolding s by (simp add: nth_append)
    ultimately show ?thesis using False by (simp add: last_conv_nth)
  qed
  with len t show "\<exists>i<length s. (i = 0 \<or> s ! (i - 1) = CHR ''/'') \<and> ticket_at (drop i s) \<noteq> None"
    by blast
next
  assume "\<exists>i<length s. (i = 0 \<or> s ! (i - 1) = CHR ''/'') \<and> ticket_at (drop i s) \<noteq> None"
  then obtain i r where i: "i < length s" and pos: "i = 0 \<or> s ! (i - 1) = CHR ''/''"
    and t: "ticket_at (drop i s) = Some r"
    by blast
  from t obtain rest where d: "drop i s = r @ rest" and ref: "is_reference r"
    by (auto simp: ticket_at_iff)
  have "s = take i s @ drop i s" by simp
  with d have s: "s = take i s @ r @ rest" by simp
  have "take i s = [] \<or> last (take i s) = CHR ''/''"
  proof (cases i)
    case 0
    then show ?thesis by simp
  next
    case (Suc k)
    with i have "take (Suc k) s = take k s @ [s ! k]"
      by (intro take_Suc_conv_app_nth) simp
    with Suc pos show ?thesis by simp
  qed
  with s ref show "matches_pattern s"
    unfolding matches_pattern_def by blast
qed

lemma ticket_start_matches:
  assumes "ticket_start s i"
  shows "matches_pattern s"
proof -
  from assms have i: "i < length s" by (rule ticket_start_less)
  from assms have "i = 0 \<or> s ! (i - 1) = CHR ''/''"
    by (auto simp: ticket_start_def reachable_def)
  moreover from assms have "ticket_at (drop i s) \<noteq> None"
    by (simp add: ticket_start_def)
  ultimately show ?thesis
    using i unfolding matches_pattern_iff by blast
qed

text \<open>
  Claim C3. A string that does not match \<^verbatim>\<open>^(prefix/)?[A-Z]+-[0-9]+\<close> (an optional prefix
  that ends in a slash, then uppercase ASCII letters, a hyphen and ASCII digits, from
  position 0) gives the empty string; so do \<^verbatim>\<open>abc-123-branch-name\<close> and
  \<^verbatim>\<open>branch-name-ABC-123\<close>.
\<close>

theorem extract_no_match_empty:
  "(\<not> matches_pattern s \<longrightarrow> extract_project_and_id s = Inr []) \<and>
   extract_project_and_id ''abc-123-branch-name'' = Inr [] \<and>
   extract_project_and_id ''branch-name-ABC-123'' = Inr []"
proof (intro conjI impI)
  assume no: "\<not> matches_pattern s"
  show "extract_project_and_id s = Inr []"
  proof (rule extract_none)
    fix i
    from no show "\<not> ticket_start s i"
      using ticket_start_matches by blast
  qed
next
  show "extract_project_and_id ''abc-123-branch-name'' = Inr []"
    by (simp add: extract_project_and_id_def re_match_def jira_regex_def newline_def)
next
  show "extract_project_and_id ''branch-name-ABC-123'' = Inr []"
    by (simp add: extract_project_and_id_def re_match_def jira_regex_def newline_def)
qed

theorem extract_no_match_empty_witness:
  "\<not> matches_pattern ''branch-name-ABC-123'' \<and>
   extract_project_and_id ''branch-name-ABC-123'' = Inr []"
proof -
  have "\<not> matches_pattern ''branch-name-ABC-123''"
    by (simp add: matches_pattern_iff ticket_at_def is_upper_def is_digit_def All_less_Suc)
  with extract_no_match_empty [of "''branch-name-ABC-123''"] show ?thesis
    by blast
qed

text \<open>
  Claim C4, as the code has it. When the input has a reference the pattern can reach,
  extraction returns a reference without its prefix and without the text after it:
  the one that starts at the last reachable position, that is at the start of the input
  or right after a slash that no newline precedes. The prefix group is greedy, so a
  later slash wins: \<^verbatim>\<open>feature/ABC-123-x\<close> and \<^verbatim>\<open>ABC-123-branch-name\<close> give
  \<^verbatim>\<open>ABC-123\<close>, and \<^verbatim>\<open>ABC-1/DEF-2\<close> gives \<^verbatim>\<open>DEF-2\<close>.
\<close>

theorem extract_last_reachable_reference:
  "(ticket_start s k \<longrightarrow>
      (\<exists>m r. ticket_start s m \<and> (\<forall>j>m. \<not> ticket_start s j) \<and>
         ticket_at (drop m s) = Some r \<and> extract_project_and_id s = Inr r)) \<and>
   extract_project_and_id ''feature/ABC-123-x'' = Inr ''ABC-123'' \<and>
   extract_project_and_id ''ABC-123-branch-name'' = Inr ''ABC-123'' \<and>
   extract_project_and_id ''ABC-1/DEF-2'' = Inr ''DEF-2''"
proof (intro conjI impI)
  assume k: "ticket_start s k"
  show "\<exists>m r. ticket_start s m \<and> (\<forall>j>m. \<not> ticket_start s j) \<and>
         ticket_at (drop m s) = Some r \<and> extract_project_and_id s = Inr r"
  proof (rule extract_cases [of s])
    assume "\<And>i. \<not> ticket_start s i"
    with k show ?thesis by blast
  next
    fix m r
    assume "ticket_start s m" "\<And>j. m < j \<Longrightarrow> \<not> ticket_start s j"
      "ticket_at (drop m s) = Some r" "extract_project_and_id s = Inr r"
    then show ?thesis by blast
  qed
next
  show "extract_project_and_id ''feature/ABC-123-x'' = Inr ''ABC-123''"
    by (simp add: extract_project_and_id_def re_match_def jira_regex_def py_split_def
        py_index_def newline_def)
next
  show "extract_project_and_id ''ABC-123-branch-name'' = Inr ''ABC-123''"
    by (simp add: extract_project_and_id_def re_match_def jira_regex_def py_split_def
        py_index_def newline_def)
next
  show "extract_project_and_id ''ABC-1/DEF-2'' = Inr ''DEF-2''"
    by (simp add: extract_project_and_id_def re_match_def jira_regex_def py_split_def
        py_index_def newline_def)
qed

theorem extract_last_reachable_reference_witness:
  "ticket_start ''ABC-1/DEF-2'' 0 \<and> ticket_start ''ABC-1/DEF-2'' 6 \<and>
   \<not> (\<exists>j>6. ticket_start ''ABC-1/DEF-2'' j) \<and>
   ticket_at (drop 6 ''ABC-1/DEF-2'') = Some ''DEF-2'' \<and>
   extract_project_and_id ''ABC-1/DEF-2'' = Inr ''DEF-2''"
proof -
  have k: "ticket_start ''ABC-1/DEF-2'' 0"
    by (simp add: ticket_start_def reachable_def ticket_at_def is_upper_def is_digit_def)
  from extract_last_reachable_reference [of "''ABC-1/DEF-2''" 0] k
  obtain m r where m: "ticket_start ''ABC-1/DEF-2'' m"
    and g: "\<forall>j>m. \<not> ticket_start ''ABC-1/DEF-2'' j"
    and r: "ticket_at (drop m ''ABC-1/DEF-2'') = Some r"
    and e: "extract_project_and_id ''ABC-1/DEF-2'' = Inr r"
    by blast
  have six: "ticket_start ''ABC-1/DEF-2'' 6"
    by (simp add: ticket_start_def reachable_def ticket_at_def is_upper_def is_digit_def
        newline_def eval_nat_numeral)
  have d: "ticket_at (drop 6 ''ABC-1/DEF-2'') = Some ''DEF-2''"
    by (simp add: ticket_at_def is_upper_def is_digit_def eval_nat_numeral)
  from e extract_last_reachable_reference [of "''ABC-1/DEF-2''" 0]
  have r2: "r = ''DEF-2''" by simp
  have "m = 6"
  proof (rule ccontr)
    assume ne: "m \<noteq> 6"
    from g six have "\<not> m < 6" by blast
    with ne have "6 < m" by simp
    moreover from m have "m < 11" using ticket_start_less by fastforce
    ultimately have "m \<in> {7, 8, 9, 10}" by auto
    with r r2 show False
      by (auto simp: ticket_at_def is_upper_def is_digit_def eval_nat_numeral)
  qed
  with g have "\<not> (\<exists>j>6. ticket_start ''ABC-1/DEF-2'' j)" by blast
  with k six d e r2 show ?thesis by simp
qed

text \<open>
  Claim C4 as stated fails: \<^verbatim>\<open>ABC-1/DEF-2\<close> starts with the reference \<^verbatim>\<open>ABC-1\<close>, and
  extraction does not return it.
\<close>

theorem extract_first_reference_counterexample:
  "ticket_at ''ABC-1/DEF-2'' = Some ''ABC-1'' \<and>
   extract_project_and_id ''ABC-1/DEF-2'' \<noteq> Inr ''ABC-1''"
  by (simp add: ticket_at_def is_upper_def is_digit_def extract_project_and_id_def re_match_def
      jira_regex_def py_split_def py_index_def newline_def)

subsection \<open>Substring test and trimming\<close>

lemma py_in_iff: "py_in sub s \<longleftrightarrow> occurs_in sub s"
proof (induction s)
  case Nil
  show ?case by (auto simp: occurs_in_def)
next
  case (Cons c s)
  show ?case
  proof
    assume "py_in sub (c # s)"
    then consider "prefix sub (c # s)" | "py_in sub s" by auto
    then show "occurs_in sub (c # s)"
    proof cases
      case 1
      then obtain q where "c # s = sub @ q" by (auto simp: prefix_def)
      then have "c # s = [] @ sub @ q" by simp
      then show ?thesis unfolding occurs_in_def by blast
    next
      case 2
      with Cons obtain p q where "s = p @ sub @ q" by (auto simp: occurs_in_def)
      then have "c # s = (c # p) @ sub @ q" by simp
      then show ?thesis unfolding occurs_in_def by blast
    qed
  next
    assume "occurs_in sub (c # s)"
    then obtain p q where pq: "c # s = p @ sub @ q" by (auto simp: occurs_in_def)
    show "py_in sub (c # s)"
    proof (cases p)
      case Nil
      with pq have "prefix sub (c # s)" by (simp add: prefix_def)
      then show ?thesis by simp
    next
      case (Cons a p')
      with pq have "s = p' @ sub @ q" by simp
      then have "occurs_in sub s" unfolding occurs_in_def by blast
      with Cons.IH show ?thesis by simp
    qed
  qed
qed

lemma py_strip_trimmed: "trimmed_of s (py_strip s)"
proof -
  define lead where "lead = takeWhile is_space s"
  define mid where "mid = dropWhile is_space s"
  define t where "t = rev (dropWhile is_space (rev mid))"
  define trail where "trail = rev (takeWhile is_space (rev mid))"
  have s: "s = lead @ mid" by (simp add: lead_def mid_def)
  have "t @ trail = rev (takeWhile is_space (rev mid) @ dropWhile is_space (rev mid))"
    unfolding t_def trail_def by (simp only: rev_append)
  then have mid: "mid = t @ trail"
    by (simp only: takeWhile_dropWhile_id rev_rev_ident)
  have lead: "list_all is_space lead"
    by (auto simp: lead_def list_all_iff dest: set_takeWhileD)
  have trail: "list_all is_space trail"
    by (auto simp: trail_def list_all_iff dest: set_takeWhileD)
  have ends: "\<not> is_space (hd t) \<and> \<not> is_space (last t)" if "t \<noteq> []"
  proof
    from that mid have "mid \<noteq> []" by auto
    then have "\<not> is_space (hd mid)"
      unfolding mid_def by (rule hd_dropWhile)
    moreover from that mid have "hd mid = hd t" by simp
    ultimately show "\<not> is_space (hd t)" by simp
  next
    from that have ne: "dropWhile is_space (rev mid) \<noteq> []" by (simp add: t_def)
    then have "\<not> is_space (hd (dropWhile is_space (rev mid)))" by (rule hd_dropWhile)
    moreover from ne have "last t = hd (dropWhile is_space (rev mid))"
      by (simp add: t_def last_rev)
    ultimately show "\<not> is_space (last t)" by simp
  qed
  have "py_strip s = t" by (simp add: py_strip_def t_def mid_def)
  moreover from s mid have "s = lead @ t @ trail" by simp
  ultimately show ?thesis
    unfolding trimmed_of_def using lead trail ends by blast
qed

lemma link_in_appended: "occurs_in link (t @ [newline, newline] @ link @ [newline])"
proof -
  have "t @ [newline, newline] @ link @ [newline] = (t @ [newline, newline]) @ link @ [newline]"
    by simp
  then show ?thesis unfolding occurs_in_def by blast
qed

text \<open>
  Claim C1, as the code has it. When the link \<open>b/r\<close> does not occur in the message \<open>m\<close>,
  the formatter returns \<open>m\<close> with its leading and its trailing whitespace removed
  (\<^verbatim>\<open>strip\<close> trims both ends), then one blank line, the link and a final newline;
  \<^verbatim>\<open>fix bug\<close> with \<^verbatim>\<open>ABC-1\<close> and \<^verbatim>\<open>https://j/browse\<close> gives the text of the specification.
\<close>

theorem format_message_appends:
  "(\<not> occurs_in (b @ ''/'' @ r) m \<longrightarrow>
      trimmed_of m (py_strip m) \<and>
      snd (format_message b m r w) = py_strip m @ [newline, newline] @ (b @ ''/'' @ r) @ [newline]) \<and>
   snd (format_message ''https://j/browse'' ''fix bug'' ''ABC-1'' w) =
     ''fix bug'' @ [newline, newline] @ ''https://j/browse/ABC-1'' @ [newline]"
proof (intro conjI impI)
  assume "\<not> occurs_in (b @ ''/'' @ r) m"
  then show "snd (format_message b m r w) =
      py_strip m @ [newline, newline] @ (b @ ''/'' @ r) @ [newline]"
    by (simp add: format_message_def py_in_iff)
next
  show "trimmed_of m (py_strip m)" by (rule py_strip_trimmed)
next
  show "snd (format_message ''https://j/browse'' ''fix bug'' ''ABC-1'' w) =
     ''fix bug'' @ [newline, newline] @ ''https://j/browse/ABC-1'' @ [newline]"
    by (simp add: format_message_def py_strip_def is_space_def)
qed

theorem format_message_appends_witness:
  "\<not> occurs_in (''https://j/browse'' @ ''/'' @ ''ABC-1'') '' fix bug  '' \<and>
   py_strip '' fix bug  '' = ''fix bug'' \<and> trimmed_of '' fix bug  '' ''fix bug'' \<and>
   snd (format_message ''https://j/browse'' '' fix bug  '' ''ABC-1'' ''branch name'') =
     ''fix bug'' @ [newline, newline] @ ''https://j/browse/ABC-1'' @ [newline]"
proof -
  have a: "\<not> occurs_in (''https://j/browse'' @ ''/'' @ ''ABC-1'') '' fix bug  ''"
    by (simp add: py_in_iff [symmetric])
  have b: "py_strip '' fix bug  '' = ''fix bug''"
    by (simp add: py_strip_def is_space_def)
  from format_message_appends [of "''https://j/browse''" "''ABC-1''" "'' fix bug  ''" "''branch name''"]
    a b show ?thesis by simp
qed

text \<open>
  Claim C1 as stated fails: a message that starts with a space loses it, which trimming
  the trailing whitespace alone would not do.
\<close>

theorem format_message_leading_space_counterexample:
  "\<not> occurs_in (''https://j/browse'' @ ''/'' @ ''ABC-1'') '' fix bug'' \<and>
   snd (format_message ''https://j/browse'' '' fix bug'' ''ABC-1'' ''branch name'') \<noteq>
     trailing_trimmed '' fix bug'' @ [newline, newline] @
       (''https://j/browse'' @ ''/'' @ ''ABC-1'') @ [newline]"
proof -
  have "\<not> occurs_in (''https://j/browse'' @ ''/'' @ ''ABC-1'') '' fix bug''"
    by (simp add: py_in_iff [symmetric])
  moreover have "snd (format_message ''https://j/browse'' '' fix bug'' ''ABC-1'' ''branch name'') \<noteq>
     trailing_trimmed '' fix bug'' @ [newline, newline] @
       (''https://j/browse'' @ ''/'' @ ''ABC-1'') @ [newline]"
    by (simp add: format_message_def py_strip_def trailing_trimmed_def is_space_def)
  ultimately show ?thesis by blast
qed

text \<open>
  Claim C5. When the link \<open>b/r\<close> occurs verbatim anywhere in the message, the formatter
  returns the message unchanged (and prints nothing).
\<close>

theorem format_message_link_present:
  "occurs_in (b @ ''/'' @ r) m \<Longrightarrow> format_message b m r w = ([], m)"
  by (simp add: format_message_def py_in_iff)

theorem format_message_link_present_witness:
  "occurs_in (''https://j/browse'' @ ''/'' @ ''ABC-1'') ''fix https://j/browse/ABC-1 now'' \<and>
   format_message ''https://j/browse'' ''fix https://j/browse/ABC-1 now'' ''ABC-1'' ''branch name'' =
     ([], ''fix https://j/browse/ABC-1 now'')"
proof -
  have a: "occurs_in (''https://j/browse'' @ ''/'' @ ''ABC-1'') ''fix https://j/browse/ABC-1 now''"
    by (simp add: py_in_iff [symmetric])
  from format_message_link_present [OF a] a show ?thesis by blast
qed

text \<open>
  Claim C10. The formatter is idempotent in the message: formatting its own result again,
  for the same reference and base URL, returns that result.
\<close>

theorem format_message_idempotent:
  "snd (format_message b (snd (format_message b m r w)) r w') = snd (format_message b m r w)"
proof (cases "py_in (b @ ''/'' @ r) m")
  case True
  then show ?thesis by (simp add: format_message_def)
next
  case False
  have "py_in (b @ ''/'' @ r) (py_strip m @ [newline, newline] @ (b @ ''/'' @ r) @ [newline])"
    unfolding py_in_iff by (rule link_in_appended)
  with False show ?thesis by (simp add: format_message_def)
qed

theorem format_message_idempotent_witness:
  "snd (format_message ''https://j/browse''
      (snd (format_message ''https://j/browse'' ''fix bug'' ''ABC-1'' ''branch name''))
      ''ABC-1'' ''bookmark name'') =
   ''fix bug'' @ [newline, newline] @ ''https://j/browse/ABC-1'' @ [newline]"
proof -
  have "snd (format_message ''https://j/browse'' ''fix bug'' ''ABC-1'' ''branch name'') =
     ''fix bug'' @ [newline, newline] @ ''https://j/browse/ABC-1'' @ [newline]"
    by (simp add: format_message_def py_strip_def is_space_def)
  with format_message_idempotent
    [of "''https://j/browse''" "''fix bug''" "''ABC-1''" "''branch name''" "''bookmark name''"]
  show ?thesis by simp
qed

subsection \<open>The interceptor\<close>

lemma extract_reference:
  assumes "extract_project_and_id s = Inr r" "r \<noteq> []"
  shows "is_reference r"
proof (rule extract_cases [of s])
  assume "extract_project_and_id s = Inr []"
  with assms show ?thesis by simp
next
  fix m r'
  assume "ticket_at (drop m s) = Some r'" "extract_project_and_id s = Inr r'"
  with assms(1) show ?thesis by (auto simp: ticket_at_iff)
qed

lemma py_index_active:
  assumes "active_valid cl" "client_bookmarks cl = (bms, active)" "active \<noteq> - 1"
  shows "\<exists>bm. py_index bms active = Inr bm"
proof -
  from assms have range: "- int (length bms) \<le> active" "active < int (length bms)"
    by (simp_all add: active_valid_def)
  show ?thesis
  proof (cases "0 \<le> active")
    case True
    with range have "py_index bms active = Inr (bms ! nat active)"
      by (simp add: py_index_def)
    then show ?thesis by (rule exI)
  next
    case False
    with range have "py_index bms active = Inr (bms ! nat (int (length bms) + active))"
      by (simp add: py_index_def)
    then show ?thesis by (rule exI)
  qed
qed

lemma rewrite_ctx_branch:
  assumes "extract_project_and_id (ctx_branch ctx) = Inr found" "found \<noteq> []"
  shows "rewrite_ctx b commitctx cl ctx error =
    (fst (format_message b (ctx_text ctx) found ''branch name''),
     Inr (commitctx (ctx\<lparr>ctx_text := snd (format_message b (ctx_text ctx) found ''branch name'')\<rparr>)
       error))"
  using assms by (simp add: rewrite_ctx_def split_def Let_def)

lemma rewrite_ctx_bookmark:
  assumes "extract_project_and_id (ctx_branch ctx) = Inr []"
    and "client_bookmarks cl = (bms, active)" "active \<noteq> - 1" "py_index bms active = Inr bm"
    and "extract_project_and_id (fst bm) = Inr found" "found \<noteq> []"
  shows "rewrite_ctx b commitctx cl ctx error =
    (Bookmarks_query # fst (format_message b (ctx_text ctx) found ''bookmark name''),
     Inr (commitctx
       (ctx\<lparr>ctx_text := snd (format_message b (ctx_text ctx) found ''bookmark name'')\<rparr>) error))"
  using assms by (simp add: rewrite_ctx_def split_def Let_def)

lemma rewrite_ctx_untouched:
  assumes "extract_project_and_id (ctx_branch ctx) = Inr []"
    and "client_bookmarks cl = (bms, active)"
    and "active = - 1 \<or> (py_index bms active = Inr bm \<and> extract_project_and_id (fst bm) = Inr [])"
  shows "rewrite_ctx b commitctx cl ctx error = ([Bookmarks_query], Inr (commitctx ctx error))"
  using assms by (auto simp: rewrite_ctx_def Let_def)

lemma format_message_events: "Bookmarks_query \<notin> set (fst (format_message b m r w))"
  by (simp add: format_message_def Let_def)

lemma format_message_cases:
  "snd (format_message b m r w) = m \<or>
   (\<not> occurs_in (b @ ''/'' @ r) m \<and>
    snd (format_message b m r w) = py_strip m @ [newline, newline] @ (b @ ''/'' @ r) @ [newline])"
  by (simp add: format_message_def py_in_iff Let_def)

lemma rewrite_ctx_delegates:
  assumes "active_valid cl"
  shows "\<exists>m'. snd (rewrite_ctx b commitctx cl ctx error) =
           Inr (commitctx (ctx\<lparr>ctx_text := m'\<rparr>) error) \<and>
         (m' = ctx_text ctx \<or>
          (\<exists>r. r \<noteq> [] \<and>
             (extract_project_and_id (ctx_branch ctx) = Inr r \<or>
              (extract_project_and_id (ctx_branch ctx) = Inr [] \<and>
               snd (client_bookmarks cl) \<noteq> - 1 \<and>
               (\<exists>bm. py_index (fst (client_bookmarks cl)) (snd (client_bookmarks cl)) = Inr bm \<and>
                  extract_project_and_id (fst bm) = Inr r))) \<and>
             \<not> occurs_in (b @ ''/'' @ r) (ctx_text ctx) \<and>
             m' = py_strip (ctx_text ctx) @ [newline, newline] @ (b @ ''/'' @ r) @ [newline]))"
proof -
  obtain found where f: "extract_project_and_id (ctx_branch ctx) = Inr found"
    using extract_total by blast
  obtain bms active where cb: "client_bookmarks cl = (bms, active)"
    by (cases "client_bookmarks cl")
  show ?thesis
  proof (cases "found = []")
    case False
    from rewrite_ctx_branch [OF f False, of b commitctx cl error]
    have "snd (rewrite_ctx b commitctx cl ctx error) =
        Inr (commitctx
          (ctx\<lparr>ctx_text := snd (format_message b (ctx_text ctx) found ''branch name'')\<rparr>) error)"
      by simp
    with format_message_cases [of b "ctx_text ctx" found "''branch name''"] f False
    show ?thesis by blast
  next
    case True
    with f have f0: "extract_project_and_id (ctx_branch ctx) = Inr []" by simp
    show ?thesis
    proof (cases "active = - 1")
      case True
      with rewrite_ctx_untouched [OF f0 cb, of undefined b commitctx error]
      have "snd (rewrite_ctx b commitctx cl ctx error) = Inr (commitctx ctx error)" by simp
      then have "snd (rewrite_ctx b commitctx cl ctx error) =
          Inr (commitctx (ctx\<lparr>ctx_text := ctx_text ctx\<rparr>) error)" by simp
      then show ?thesis by blast
    next
      case False
      from py_index_active [OF assms cb False] obtain bm where bm: "py_index bms active = Inr bm"
        by blast
      obtain found' where f': "extract_project_and_id (fst bm) = Inr found'"
        using extract_total by blast
      show ?thesis
      proof (cases "found' = []")
        case True
        with rewrite_ctx_untouched [OF f0 cb, of bm b commitctx error] bm f'
        have "snd (rewrite_ctx b commitctx cl ctx error) = Inr (commitctx ctx error)" by simp
        then have "snd (rewrite_ctx b commitctx cl ctx error) =
            Inr (commitctx (ctx\<lparr>ctx_text := ctx_text ctx\<rparr>) error)" by simp
        then show ?thesis by blast
      next
        case nonempty: False
        from rewrite_ctx_bookmark [OF f0 cb False bm f' nonempty, of b commitctx error]
        have "snd (rewrite_ctx b commitctx cl ctx error) =
            Inr (commitctx
              (ctx\<lparr>ctx_text := snd (format_message b (ctx_text ctx) found' ''bookmark name'')\<rparr>)
              error)"
          by simp
        moreover from cb bm False have
          "snd (client_bookmarks cl) \<noteq> - 1 \<and>
           (\<exists>bm. py_index (fst (client_bookmarks cl)) (snd (client_bookmarks cl)) = Inr bm \<and>
              extract_project_and_id (fst bm) = Inr found')"
          using f' by auto
        ultimately show ?thesis
          using format_message_cases [of b "ctx_text ctx" found' "''bookmark name''"] f0 nonempty
          by blast
      qed
    qed
  qed
qed

lemma get_config_missing:
  assumes "client_config cl = Inl CommandError \<or>
    (\<exists>cfgs. client_config cl = Inr cfgs \<and> (\<forall>cfg\<in>set cfgs. fst (snd cfg) \<noteq> key))"
  shows "get_config cl key =
    Inl (MissingConfig (''Missing configuration key '' @ [apostrophe] @ key @ [apostrophe]))"
proof -
  from assms consider "client_config cl = Inl CommandError"
    | cfgs where "client_config cl = Inr cfgs" "\<forall>cfg\<in>set cfgs. fst (snd cfg) \<noteq> key"
    by blast
  then show ?thesis
  proof cases
    case 1
    then show ?thesis by (simp add: get_config_def)
  next
    case 2
    from 2(2) have "find (\<lambda>cfg. fst (snd cfg) = key) cfgs = None"
      unfolding find_None_iff by blast
    with 2(1) show ?thesis by (simp add: get_config_def)
  qed
qed

lemma append_installs:
  assumes "client_config cl = Inr cfgs" "find (\<lambda>cfg. fst (snd cfg) = ''jira.url'') cfgs = Some cfg"
  shows "append_jira_commit_message commitctx cl =
    ([], Installed (rewrite_ctx (snd (snd cfg)) commitctx cl))"
  using assms by (simp add: append_jira_commit_message_def get_config_def)

lemma format_message_snd_present:
  "occurs_in (b @ ''/'' @ r) m \<Longrightarrow> snd (format_message b m r w) = m"
  by (simp add: format_message_def py_in_iff)

lemma format_message_snd_absent:
  "\<not> occurs_in (b @ ''/'' @ r) m \<Longrightarrow>
     snd (format_message b m r w) = py_strip m @ [newline, newline] @ (b @ ''/'' @ r) @ [newline]"
  by (simp add: format_message_def py_in_iff)

lemma found_reference_branch:
  assumes "extract_project_and_id (ctx_branch ctx) = Inr found" "found \<noteq> []"
  shows "found_reference cl ctx r \<longleftrightarrow> r = found"
  using assms by (auto simp: found_reference_def)

lemma found_reference_none:
  assumes "extract_project_and_id (ctx_branch ctx) = Inr []"
    and "client_bookmarks cl = (bms, active)"
    and "active = - 1 \<or> (py_index bms active = Inr bm \<and> extract_project_and_id (fst bm) = Inr [])"
  shows "\<not> found_reference cl ctx r"
  using assms by (auto simp: found_reference_def)

lemma found_reference_bookmark:
  assumes "extract_project_and_id (ctx_branch ctx) = Inr []"
    and "client_bookmarks cl = (bms, active)" "active \<noteq> - 1" "py_index bms active = Inr bm"
    and "extract_project_and_id (fst bm) = Inr found" "found \<noteq> []"
  shows "found_reference cl ctx r \<longleftrightarrow> r = found"
  using assms by (auto simp: found_reference_def)

text \<open>
  Claim C2, as the code has it. After the interceptor has run, the message handed to the
  commit is the original one when no reference is found in the branch name or in the
  active bookmark's name, and also when the link of the reference found occurs in it
  already. Otherwise, a reference being found and its link not occurring in the message,
  it is the original message with its leading and trailing whitespace removed, then a
  blank line, then that link and a final newline: one new trailing block, and nothing
  else changed.
\<close>

theorem rewrite_ctx_message:
  assumes "active_valid cl"
  shows "\<exists>m'. snd (rewrite_ctx b commitctx cl ctx error) =
           Inr (commitctx (ctx\<lparr>ctx_text := m'\<rparr>) error) \<and>
         ((\<forall>r. \<not> found_reference cl ctx r) \<longrightarrow> m' = ctx_text ctx) \<and>
         (\<forall>r. found_reference cl ctx r \<longrightarrow>
            is_reference r \<and>
            (occurs_in (b @ ''/'' @ r) (ctx_text ctx) \<longrightarrow> m' = ctx_text ctx) \<and>
            (\<not> occurs_in (b @ ''/'' @ r) (ctx_text ctx) \<longrightarrow>
               trimmed_of (ctx_text ctx) (py_strip (ctx_text ctx)) \<and>
               m' = py_strip (ctx_text ctx) @ [newline, newline] @ (b @ ''/'' @ r) @ [newline]))"
proof -
  obtain found where f: "extract_project_and_id (ctx_branch ctx) = Inr found"
    using extract_total by blast
  obtain bms active where cb: "client_bookmarks cl = (bms, active)"
    by (cases "client_bookmarks cl")
  have unchanged: ?thesis
    if res: "rewrite_ctx b commitctx cl ctx error = ([Bookmarks_query], Inr (commitctx ctx error))"
      and none: "\<And>r. \<not> found_reference cl ctx r"
  proof -
    from res have "snd (rewrite_ctx b commitctx cl ctx error) =
        Inr (commitctx (ctx\<lparr>ctx_text := ctx_text ctx\<rparr>) error)" by simp
    with none show ?thesis by blast
  qed
  have appended: ?thesis
    if res: "snd (rewrite_ctx b commitctx cl ctx error) =
        Inr (commitctx (ctx\<lparr>ctx_text := snd (format_message b (ctx_text ctx) r0 w)\<rparr>) error)"
      and only: "\<And>r. found_reference cl ctx r \<longleftrightarrow> r = r0"
      and ref: "is_reference r0"
    for r0 w
  proof -
    let ?m' = "snd (format_message b (ctx_text ctx) r0 w)"
    have 1: "(\<forall>r. \<not> found_reference cl ctx r) \<longrightarrow> ?m' = ctx_text ctx"
      using only by blast
    have 2: "\<forall>r. found_reference cl ctx r \<longrightarrow>
            is_reference r \<and>
            (occurs_in (b @ ''/'' @ r) (ctx_text ctx) \<longrightarrow> ?m' = ctx_text ctx) \<and>
            (\<not> occurs_in (b @ ''/'' @ r) (ctx_text ctx) \<longrightarrow>
               trimmed_of (ctx_text ctx) (py_strip (ctx_text ctx)) \<and>
               ?m' = py_strip (ctx_text ctx) @ [newline, newline] @ (b @ ''/'' @ r) @ [newline])"
    proof (intro allI impI)
      fix r assume "found_reference cl ctx r"
      with only have r: "r = r0" by simp
      show "is_reference r \<and>
            (occurs_in (b @ ''/'' @ r) (ctx_text ctx) \<longrightarrow> ?m' = ctx_text ctx) \<and>
            (\<not> occurs_in (b @ ''/'' @ r) (ctx_text ctx) \<longrightarrow>
               trimmed_of (ctx_text ctx) (py_strip (ctx_text ctx)) \<and>
               ?m' = py_strip (ctx_text ctx) @ [newline, newline] @ (b @ ''/'' @ r) @ [newline])"
        unfolding r using ref py_strip_trimmed [of "ctx_text ctx"]
          format_message_snd_present [of b r0 "ctx_text ctx" w]
          format_message_snd_absent [of b r0 "ctx_text ctx" w]
        by blast
    qed
    from res 1 2 show ?thesis by blast
  qed
  show ?thesis
  proof (cases "found = []")
    case False
    from rewrite_ctx_branch [OF f False, of b commitctx cl error]
    have "snd (rewrite_ctx b commitctx cl ctx error) =
        Inr (commitctx
          (ctx\<lparr>ctx_text := snd (format_message b (ctx_text ctx) found ''branch name'')\<rparr>) error)"
      by simp
    then show ?thesis
      using found_reference_branch [OF f False] extract_reference [OF f False]
      by (rule appended)
  next
    case True
    with f have f0: "extract_project_and_id (ctx_branch ctx) = Inr []" by simp
    show ?thesis
    proof (cases "active = - 1")
      case True
      then have alt: "active = - 1 \<or>
          (py_index bms active = Inr undefined \<and> extract_project_and_id (fst undefined) = Inr [])"
        by simp
      show ?thesis
        using rewrite_ctx_untouched [OF f0 cb alt] found_reference_none [OF f0 cb alt]
        by (rule unchanged)
    next
      case False
      from py_index_active [OF assms cb False] obtain bm where bm: "py_index bms active = Inr bm"
        by blast
      obtain found' where f': "extract_project_and_id (fst bm) = Inr found'"
        using extract_total by blast
      show ?thesis
      proof (cases "found' = []")
        case True
        with bm f' have alt: "active = - 1 \<or>
            (py_index bms active = Inr bm \<and> extract_project_and_id (fst bm) = Inr [])"
          by simp
        show ?thesis
          using rewrite_ctx_untouched [OF f0 cb alt] found_reference_none [OF f0 cb alt]
          by (rule unchanged)
      next
        case nonempty: False
        from rewrite_ctx_bookmark [OF f0 cb False bm f' nonempty, of b commitctx error]
        have "snd (rewrite_ctx b commitctx cl ctx error) =
            Inr (commitctx
              (ctx\<lparr>ctx_text := snd (format_message b (ctx_text ctx) found' ''bookmark name'')\<rparr>)
              error)"
          by simp
        then show ?thesis
          using found_reference_bookmark [OF f0 cb False bm f' nonempty]
            extract_reference [OF f' nonempty]
          by (rule appended)
      qed
    qed
  qed
qed

theorem rewrite_ctx_message_witness:
  "active_valid \<lparr>client_config = Inr [], client_bookmarks = ([(''DEF-2'', 0, ''n'')], 0)\<rparr> \<and>
   found_reference \<lparr>client_config = Inr [], client_bookmarks = ([(''DEF-2'', 0, ''n'')], 0)\<rparr>
     \<lparr>ctx_branch = ''default'', ctx_text = '' fix bug ''\<rparr> ''DEF-2'' \<and>
   \<not> occurs_in (''https://j/browse'' @ ''/'' @ ''DEF-2'') '' fix bug '' \<and>
   snd (rewrite_ctx ''https://j/browse'' Pair
         \<lparr>client_config = Inr [], client_bookmarks = ([(''DEF-2'', 0, ''n'')], 0)\<rparr>
         \<lparr>ctx_branch = ''default'', ctx_text = '' fix bug ''\<rparr> ()) =
     Inr (\<lparr>ctx_branch = ''default'',
           ctx_text = ''fix bug'' @ [newline, newline] @ ''https://j/browse/DEF-2'' @ [newline]\<rparr>, ())"
proof -
  let ?cl = "\<lparr>client_config = Inr [], client_bookmarks = ([(''DEF-2'', 0 :: int, ''n'')], 0 :: int)\<rparr>"
  let ?ctx = "\<lparr>ctx_branch = ''default'', ctx_text = '' fix bug ''\<rparr>"
  have v: "active_valid ?cl"
    by (simp add: active_valid_def)
  have fr: "found_reference ?cl ?ctx ''DEF-2''"
    by (simp add: found_reference_def extract_project_and_id_def re_match_def jira_regex_def
        py_split_def py_index_def newline_def)
  have no: "\<not> occurs_in (''https://j/browse'' @ ''/'' @ ''DEF-2'') (ctx_text ?ctx)"
    by (simp add: py_in_iff [symmetric])
  have st: "py_strip (ctx_text ?ctx) = ''fix bug''"
    by (simp add: py_strip_def is_space_def)
  from rewrite_ctx_message [OF v, of "''https://j/browse''" Pair ?ctx "()"]
  obtain m' where res: "snd (rewrite_ctx ''https://j/browse'' Pair ?cl ?ctx ()) =
        Inr (?ctx\<lparr>ctx_text := m'\<rparr>, ())"
    and app: "\<forall>r. found_reference ?cl ?ctx r \<longrightarrow>
            is_reference r \<and>
            (occurs_in (''https://j/browse'' @ ''/'' @ r) (ctx_text ?ctx) \<longrightarrow> m' = ctx_text ?ctx) \<and>
            (\<not> occurs_in (''https://j/browse'' @ ''/'' @ r) (ctx_text ?ctx) \<longrightarrow>
               trimmed_of (ctx_text ?ctx) (py_strip (ctx_text ?ctx)) \<and>
               m' = py_strip (ctx_text ?ctx) @ [newline, newline] @
                 (''https://j/browse'' @ ''/'' @ r) @ [newline])"
    by blast
  from app fr no have "m' = py_strip (ctx_text ?ctx) @ [newline, newline] @
      (''https://j/browse'' @ ''/'' @ ''DEF-2'') @ [newline]"
    by blast
  with st have "m' = ''fix bug'' @ [newline, newline] @ ''https://j/browse/DEF-2'' @ [newline]"
    by simp
  with res have "snd (rewrite_ctx ''https://j/browse'' Pair ?cl ?ctx ()) =
     Inr (\<lparr>ctx_branch = ''default'',
           ctx_text = ''fix bug'' @ [newline, newline] @ ''https://j/browse/DEF-2'' @ [newline]\<rparr>, ())"
    by simp
  with v fr no show ?thesis by simp
qed

text \<open>
  Claim C2 as stated fails: on branch \<^verbatim>\<open>ABC-1\<close> the message \<^verbatim>\<open> fix bug\<close>, which starts with
  a space, is committed as a text that does not start with the original message.
\<close>

theorem rewrite_ctx_not_append_only_counterexample:
  "snd (rewrite_ctx ''https://j/browse'' Pair
         \<lparr>client_config = Inr [], client_bookmarks = ([], - 1)\<rparr>
         \<lparr>ctx_branch = ''ABC-1'', ctx_text = '' fix bug''\<rparr> ()) =
     Inr (\<lparr>ctx_branch = ''ABC-1'',
           ctx_text = ''fix bug'' @ [newline, newline] @ ''https://j/browse/ABC-1'' @ [newline]\<rparr>, ()) \<and>
   \<not> prefix '' fix bug'' (''fix bug'' @ [newline, newline] @ ''https://j/browse/ABC-1'' @ [newline])"
  by (simp add: rewrite_ctx_def extract_project_and_id_def re_match_def jira_regex_def
        py_split_def py_index_def format_message_def py_strip_def is_space_def newline_def Let_def)

text \<open>
  Claim C8. The interceptor changes the message of the commit context and nothing else:
  the original commit operation gets the context with every other field as it was and
  the error-handler argument as it was, and its result is the interceptor's result.
\<close>

theorem rewrite_ctx_frame:
  assumes "active_valid cl"
  shows "\<exists>ctx'. snd (rewrite_ctx b commitctx cl ctx error) = Inr (commitctx ctx' error) \<and>
           ctx_branch ctx' = ctx_branch ctx \<and> ctx.more ctx' = ctx.more ctx \<and>
           ctx' = ctx\<lparr>ctx_text := ctx_text ctx'\<rparr>"
proof -
  from rewrite_ctx_delegates [OF assms, of b commitctx ctx error] obtain m' where
    "snd (rewrite_ctx b commitctx cl ctx error) = Inr (commitctx (ctx\<lparr>ctx_text := m'\<rparr>) error)"
    by blast
  moreover have "ctx_branch (ctx\<lparr>ctx_text := m'\<rparr>) = ctx_branch ctx"
    and "ctx.more (ctx\<lparr>ctx_text := m'\<rparr>) = ctx.more ctx"
    and "ctx\<lparr>ctx_text := m'\<rparr> = ctx\<lparr>ctx_text := ctx_text (ctx\<lparr>ctx_text := m'\<rparr>)\<rparr>"
    by simp_all
  ultimately show ?thesis by blast
qed

theorem rewrite_ctx_frame_witness:
  "active_valid \<lparr>client_config = Inr [], client_bookmarks = ([(''main'', 3, ''n'')], - 1)\<rparr> \<and>
   (\<exists>ctx'. snd (rewrite_ctx ''https://j/browse'' Pair
         \<lparr>client_config = Inr [], client_bookmarks = ([(''main'', 3, ''n'')], - 1)\<rparr>
         \<lparr>ctx_branch = ''fix/ABC-7-x'', ctx_text = ''fix'', \<dots> = True\<rparr> (5 :: nat)) = Inr (ctx', 5) \<and>
      ctx_branch ctx' = ''fix/ABC-7-x'' \<and> ctx.more ctx' = True)"
proof -
  have v: "active_valid \<lparr>client_config = Inr [], client_bookmarks = ([(''main'', 3, ''n'')], - 1)\<rparr>"
    by (simp add: active_valid_def)
  from rewrite_ctx_frame [OF v, of "''https://j/browse''" Pair
      "\<lparr>ctx_branch = ''fix/ABC-7-x'', ctx_text = ''fix'', \<dots> = True\<rparr>" "5 :: nat"] v
  show ?thesis by auto
qed

text \<open>
  Claim C7. When \<^verbatim>\<open>jira.url\<close> is absent as the hook is installed (the configuration
  query fails, or no entry of the section has that key), the hook prints the error
  message and then the help text and ends the process with status 1; it does not reach
  the assignment that replaces the commit operation.
\<close>

theorem missing_config_exits:
  assumes "client_config cl = Inl CommandError \<or>
    (\<exists>cfgs. client_config cl = Inr cfgs \<and> (\<forall>cfg\<in>set cfgs. fst (snd cfg) \<noteq> ''jira.url''))"
  shows "append_jira_commit_message commitctx cl =
    ([Print (''ERROR: Missing configuration key '' @ [apostrophe] @ ''jira.url'' @ [apostrophe]),
      Print help_text], SystemExit 1)"
  using get_config_missing [OF assms] by (simp add: append_jira_commit_message_def)

theorem missing_config_exits_witness:
  "''jira.url'' \<notin> set (map (\<lambda>cfg. fst (snd cfg)) [(''jira'', ''jira.user'', ''me'')]) \<and>
   append_jira_commit_message (Pair :: ctx \<Rightarrow> unit \<Rightarrow> ctx \<times> unit)
     \<lparr>client_config = Inr [(''jira'', ''jira.user'', ''me'')], client_bookmarks = ([], - 1)\<rparr> =
    ([Print (''ERROR: Missing configuration key '' @ [apostrophe] @ ''jira.url'' @ [apostrophe]),
      Print help_text], SystemExit 1)"
proof -
  have a: "client_config \<lparr>client_config = Inr [(''jira'', ''jira.user'', ''me'')],
        client_bookmarks = ([], - 1)\<rparr> = Inl CommandError \<or>
    (\<exists>cfgs. client_config \<lparr>client_config = Inr [(''jira'', ''jira.user'', ''me'')],
        client_bookmarks = ([], - 1)\<rparr> = Inr cfgs \<and>
      (\<forall>cfg\<in>set cfgs. fst (snd cfg) \<noteq> ''jira.url''))"
    by simp
  from missing_config_exits [OF a, of "Pair :: ctx \<Rightarrow> unit \<Rightarrow> ctx \<times> unit"]
  show ?thesis by simp
qed

text \<open>
  Claim C6. The branch name is examined first. When it yields a reference, that
  reference is used and \<^verbatim>\<open>client.bookmarks()\<close> is not called, whatever the bookmarks are.
  Only when the branch name yields none is the active bookmark asked for and its name
  examined. When neither yields a reference, the commit is delegated with the context
  untouched and nothing printed.
\<close>

theorem rewrite_ctx_precedence:
  "(extract_project_and_id (ctx_branch ctx) = Inr found \<and> found \<noteq> [] \<longrightarrow>
      rewrite_ctx b commitctx cl ctx error =
        (fst (format_message b (ctx_text ctx) found ''branch name''),
         Inr (commitctx
           (ctx\<lparr>ctx_text := snd (format_message b (ctx_text ctx) found ''branch name'')\<rparr>) error)) \<and>
      Bookmarks_query \<notin> set (fst (rewrite_ctx b commitctx cl ctx error))) \<and>
   (extract_project_and_id (ctx_branch ctx) = Inr [] \<and> client_bookmarks cl = (bms, active) \<and>
    active \<noteq> - 1 \<and> py_index bms active = Inr bm \<and>
    extract_project_and_id (fst bm) = Inr found' \<and> found' \<noteq> [] \<longrightarrow>
      rewrite_ctx b commitctx cl ctx error =
        (Bookmarks_query # fst (format_message b (ctx_text ctx) found' ''bookmark name''),
         Inr (commitctx
           (ctx\<lparr>ctx_text := snd (format_message b (ctx_text ctx) found' ''bookmark name'')\<rparr>)
           error))) \<and>
   (extract_project_and_id (ctx_branch ctx) = Inr [] \<and> client_bookmarks cl = (bms, active) \<and>
    (active = - 1 \<or>
     (py_index bms active = Inr bm \<and> extract_project_and_id (fst bm) = Inr [])) \<longrightarrow>
      rewrite_ctx b commitctx cl ctx error = ([Bookmarks_query], Inr (commitctx ctx error)))"
proof (intro conjI impI)
  assume a: "extract_project_and_id (ctx_branch ctx) = Inr found \<and> found \<noteq> []"
  then have f: "extract_project_and_id (ctx_branch ctx) = Inr found" and ne: "found \<noteq> []"
    by simp_all
  show r: "rewrite_ctx b commitctx cl ctx error =
        (fst (format_message b (ctx_text ctx) found ''branch name''),
         Inr (commitctx
           (ctx\<lparr>ctx_text := snd (format_message b (ctx_text ctx) found ''branch name'')\<rparr>) error))"
    using f ne by (rule rewrite_ctx_branch)
  show "Bookmarks_query \<notin> set (fst (rewrite_ctx b commitctx cl ctx error))"
    unfolding r by (simp add: format_message_events)
next
  assume "extract_project_and_id (ctx_branch ctx) = Inr [] \<and> client_bookmarks cl = (bms, active) \<and>
    active \<noteq> - 1 \<and> py_index bms active = Inr bm \<and>
    extract_project_and_id (fst bm) = Inr found' \<and> found' \<noteq> []"
  then show "rewrite_ctx b commitctx cl ctx error =
        (Bookmarks_query # fst (format_message b (ctx_text ctx) found' ''bookmark name''),
         Inr (commitctx
           (ctx\<lparr>ctx_text := snd (format_message b (ctx_text ctx) found' ''bookmark name'')\<rparr>)
           error))"
    by (intro rewrite_ctx_bookmark [of ctx cl bms active bm found']) simp_all
next
  assume "extract_project_and_id (ctx_branch ctx) = Inr [] \<and> client_bookmarks cl = (bms, active) \<and>
    (active = - 1 \<or>
     (py_index bms active = Inr bm \<and> extract_project_and_id (fst bm) = Inr []))"
  then show "rewrite_ctx b commitctx cl ctx error = ([Bookmarks_query], Inr (commitctx ctx error))"
    by (intro rewrite_ctx_untouched [of ctx cl bms active bm]) simp_all
qed

theorem rewrite_ctx_precedence_witness:
  "extract_project_and_id ''ABC-1'' = Inr ''ABC-1'' \<and>
   extract_project_and_id ''DEF-2'' = Inr ''DEF-2'' \<and>
   snd (rewrite_ctx ''https://j/browse'' Pair
         \<lparr>client_config = Inr [], client_bookmarks = ([(''DEF-2'', 0, ''n'')], 0)\<rparr>
         \<lparr>ctx_branch = ''ABC-1'', ctx_text = ''fix bug''\<rparr> ()) =
     Inr (\<lparr>ctx_branch = ''ABC-1'',
           ctx_text = ''fix bug'' @ [newline, newline] @ ''https://j/browse/ABC-1'' @ [newline]\<rparr>, ()) \<and>
   Bookmarks_query \<notin> set (fst (rewrite_ctx ''https://j/browse'' Pair
         \<lparr>client_config = Inr [], client_bookmarks = ([(''DEF-2'', 0, ''n'')], 0)\<rparr>
         \<lparr>ctx_branch = ''ABC-1'', ctx_text = ''fix bug''\<rparr> ())) \<and>
   rewrite_ctx ''https://j/browse'' Pair
         \<lparr>client_config = Inr [], client_bookmarks = ([(''main'', 0, ''n'')], 0)\<rparr>
         \<lparr>ctx_branch = ''default'', ctx_text = ''fix bug''\<rparr> () =
     ([Bookmarks_query], Inr (\<lparr>ctx_branch = ''default'', ctx_text = ''fix bug''\<rparr>, ()))"
proof -
  have e1: "extract_project_and_id ''ABC-1'' = Inr ''ABC-1''"
    by (simp add: extract_project_and_id_def re_match_def jira_regex_def py_split_def
        py_index_def newline_def)
  have e2: "extract_project_and_id ''DEF-2'' = Inr ''DEF-2''"
    by (simp add: extract_project_and_id_def re_match_def jira_regex_def py_split_def
        py_index_def newline_def)
  have e3: "extract_project_and_id ''default'' = Inr []"
    by (simp add: extract_project_and_id_def re_match_def jira_regex_def newline_def)
  have e4: "extract_project_and_id ''main'' = Inr []"
    by (simp add: extract_project_and_id_def re_match_def jira_regex_def newline_def)
  have f: "snd (format_message ''https://j/browse'' ''fix bug'' ''ABC-1'' ''branch name'') =
      ''fix bug'' @ [newline, newline] @ ''https://j/browse/ABC-1'' @ [newline]"
    by (simp add: format_message_def py_strip_def is_space_def)
  have i: "py_index [(''main'', 0 :: int, ''n'')] 0 = Inr (''main'', 0, ''n'')"
    by (simp add: py_index_def)
  note p1 = rewrite_ctx_precedence [of "\<lparr>ctx_branch = ''ABC-1'', ctx_text = ''fix bug''\<rparr>"
      "''ABC-1''" "''https://j/browse''" Pair
      "\<lparr>client_config = Inr [], client_bookmarks = ([(''DEF-2'', 0, ''n'')], 0)\<rparr>" "()"
      "[(''DEF-2'', 0, ''n'')]" 0 "(''DEF-2'', 0, ''n'')" "''DEF-2''"]
  note p2 = rewrite_ctx_precedence [of "\<lparr>ctx_branch = ''default'', ctx_text = ''fix bug''\<rparr>"
      "''X-1''" "''https://j/browse''" Pair
      "\<lparr>client_config = Inr [], client_bookmarks = ([(''main'', 0, ''n'')], 0)\<rparr>" "()"
      "[(''main'', 0, ''n'')]" 0 "(''main'', 0, ''n'')" "''X-1''"]
  from p1 e1 have
    r: "rewrite_ctx ''https://j/browse'' Pair
         \<lparr>client_config = Inr [], client_bookmarks = ([(''DEF-2'', 0, ''n'')], 0)\<rparr>
         \<lparr>ctx_branch = ''ABC-1'', ctx_text = ''fix bug''\<rparr> () =
      (fst (format_message ''https://j/browse'' ''fix bug'' ''ABC-1'' ''branch name''),
       Inr (\<lparr>ctx_branch = ''ABC-1'',
             ctx_text = snd (format_message ''https://j/browse'' ''fix bug'' ''ABC-1''
               ''branch name'')\<rparr>, ()))"
    by simp
  have b: "Bookmarks_query \<notin> set (fst (rewrite_ctx ''https://j/browse'' Pair
         \<lparr>client_config = Inr [], client_bookmarks = ([(''DEF-2'', 0, ''n'')], 0)\<rparr>
         \<lparr>ctx_branch = ''ABC-1'', ctx_text = ''fix bug''\<rparr> ()))"
    unfolding r by (simp add: format_message_events)
  have a: "snd (rewrite_ctx ''https://j/browse'' Pair
         \<lparr>client_config = Inr [], client_bookmarks = ([(''DEF-2'', 0, ''n'')], 0)\<rparr>
         \<lparr>ctx_branch = ''ABC-1'', ctx_text = ''fix bug''\<rparr> ()) =
     Inr (\<lparr>ctx_branch = ''ABC-1'',
           ctx_text = ''fix bug'' @ [newline, newline] @ ''https://j/browse/ABC-1'' @ [newline]\<rparr>, ())"
    unfolding r by (simp add: f)
  from p2 e3 e4 i have
    c: "rewrite_ctx ''https://j/browse'' Pair
         \<lparr>client_config = Inr [], client_bookmarks = ([(''main'', 0, ''n'')], 0)\<rparr>
         \<lparr>ctx_branch = ''default'', ctx_text = ''fix bug''\<rparr> () =
     ([Bookmarks_query], Inr (\<lparr>ctx_branch = ''default'', ctx_text = ''fix bug''\<rparr>, ()))"
    by simp
  from e1 e2 a b c show ?thesis by blast
qed

end
